theory Spec2Isabelle
  imports Complex_Main "HOL-Library.Sublist" "HOL-Library.Multiset"
begin

section \<open>JavaScript strings and the built-ins the catalog code calls\<close>

text \<open>
  A JavaScript string is a sequence of UTF-16 code units. The feed uses two characters
  outside ASCII, the naira sign U+20A6 and the em dash U+2014, each one code unit, so a
  string is modelled as a list of code units (natural numbers). ASCII literals are
  written with \<open>js\<close>.

  Numbers: \<open>parseInt\<close> yields a mathematical integer or NaN; NaN is \<open>None\<close>. The
  rounding of integers beyond 2^53 to the nearest double is not modelled.
\<close>

type_synonym jschar = nat
type_synonym jsstring = "jschar list"

definition js :: "string \<Rightarrow> jsstring" where
  "js s = map of_char s"

definition NAIRA :: jschar where "NAIRA = 8358"
definition EM_DASH :: jschar where "EM_DASH = 8212"
definition DQUOTE :: jschar where "DQUOTE = 34"
definition COMMA :: jschar where "COMMA = 44"
definition PIPE :: jschar where "PIPE = 124"
definition LF :: jschar where "LF = 10"
definition CR :: jschar where "CR = 13"
definition SPACE :: jschar where "SPACE = 32"

lemmas char_defs = NAIRA_def EM_DASH_def DQUOTE_def COMMA_def PIPE_def LF_def CR_def SPACE_def

text \<open>The regular-expression classes \<open>\s\<close>, \<open>\d\<close> and the complement of \<open>.\<close>
  (line terminators). \<open>String.prototype.trim\<close> and \<open>parseInt\<close> strip the same set
  as \<open>\s\<close>.\<close>

definition isWhiteSpace :: "jschar \<Rightarrow> bool" where
  "isWhiteSpace c = (c \<in> {9, 10, 11, 12, 13, 32, 160, 5760, 8232, 8233, 8239, 8287, 12288, 65279}
      \<or> (8192 \<le> c \<and> c \<le> 8202))"

definition isLineTerminator :: "jschar \<Rightarrow> bool" where
  "isLineTerminator c = (c \<in> {10, 13, 8232, 8233})"

definition isDigit :: "jschar \<Rightarrow> bool" where
  "isDigit c = (48 \<le> c \<and> c \<le> 57)"

definition trim :: "jsstring \<Rightarrow> jsstring" where
  "trim s = rev (dropWhile isWhiteSpace (rev (dropWhile isWhiteSpace s)))"

text \<open>
  \<open>String.prototype.toLowerCase\<close> follows the Unicode case tables, and one code unit
  can become two: U+0130 becomes \<open>i\<close> and U+0307. The table below holds the ASCII and
  Latin-1 letters, U+0130 and U+212A (the only code points outside ASCII that lower-case
  into it); the other scripts are left as they are. It is used for concrete inputs, and
  where a cell is compared with an ASCII word. The search and filter functions, whose
  properties are stated for arbitrary text, take the case mapping as the parameter
  \<open>lower\<close> instead, so that what is proved of them holds for the real tables.
\<close>

definition lowerUnits :: "jschar \<Rightarrow> jsstring" where
  "lowerUnits c =
     (if 65 \<le> c \<and> c \<le> 90 then [c + 32]
      else if 192 \<le> c \<and> c \<le> 222 \<and> c \<noteq> 215 then [c + 32]
      else if c = 304 then [105, 775]
      else if c = 8490 then [107]
      else [c])"

definition toLowerCase :: "jsstring \<Rightarrow> jsstring" where
  "toLowerCase s = concat (map lowerUnits s)"

text \<open>\<open>s.includes(p)\<close>: \<open>p\<close> occurs at some position of \<open>s\<close>.\<close>

fun includesStr :: "jsstring \<Rightarrow> jsstring \<Rightarrow> bool" where
  "includesStr [] p = (p = [])"
| "includesStr (c # cs) p = (if prefix p (c # cs) then True else includesStr cs p)"

text \<open>\<open>s.split(sep)\<close> for a one-character separator.\<close>

fun splitOn :: "jschar \<Rightarrow> jsstring \<Rightarrow> jsstring \<Rightarrow> jsstring list" where
  "splitOn sep cur [] = [cur]"
| "splitOn sep cur (c # cs) =
     (if c = sep then cur # splitOn sep [] cs else splitOn sep (cur @ [c]) cs)"

text \<open>Array indexing and destructuring: a position beyond the end reads \<open>undefined\<close>.\<close>

definition elemAt :: "'a list \<Rightarrow> nat \<Rightarrow> 'a option" where
  "elemAt xs i = (if i < length xs then Some (xs ! i) else None)"

text \<open>\<open>x || ''\<close> for a string or \<open>undefined\<close>.\<close>

definition orEmpty :: "jsstring option \<Rightarrow> jsstring" where
  "orEmpty x = (case x of None \<Rightarrow> [] | Some s \<Rightarrow> s)"

text \<open>\<open>xs.findIndex(P)\<close>: the first position satisfying \<open>P\<close>, or -1.\<close>

fun findIndex :: "('a \<Rightarrow> bool) \<Rightarrow> 'a list \<Rightarrow> int" where
  "findIndex P [] = -1"
| "findIndex P (x # xs) =
     (if P x then 0 else (let r = findIndex P xs in if r < 0 then -1 else r + 1))"

subsection \<open>parseInt\<close>

text \<open>
  \<open>parseInt(string, radix)\<close> as ECMAScript defines it: leading white space is skipped,
  one sign is read, a radix that is absent (0 here) means 10, or 16 after a \<open>0x\<close>
  prefix; then the longest prefix of digits of that radix is the value, and no digit at
  all is NaN.
\<close>

definition digitValue :: "jschar \<Rightarrow> nat option" where
  "digitValue c =
     (if 48 \<le> c \<and> c \<le> 57 then Some (c - 48)
      else if 97 \<le> c \<and> c \<le> 122 then Some (c - 87)
      else if 65 \<le> c \<and> c \<le> 90 then Some (c - 55)
      else None)"

definition isRadixDigit :: "nat \<Rightarrow> jschar \<Rightarrow> bool" where
  "isRadixDigit R c = (case digitValue c of None \<Rightarrow> False | Some d \<Rightarrow> d < R)"

definition radixValue :: "nat \<Rightarrow> jsstring \<Rightarrow> nat" where
  "radixValue R z = foldl (\<lambda>acc c. acc * R + the (digitValue c)) 0 z"

definition hasHexPrefix :: "jsstring \<Rightarrow> bool" where
  "hasHexPrefix s = (case s of a # b # _ \<Rightarrow> a = 48 \<and> (b = 120 \<or> b = 88) | _ \<Rightarrow> False)"

definition parseInt :: "jsstring \<Rightarrow> nat \<Rightarrow> int option" where
  "parseInt inputString radix =
     (let S = dropWhile isWhiteSpace inputString;
          sign = (case S of c # _ \<Rightarrow> if c = 45 then - 1 else 1 | [] \<Rightarrow> (1::int));
          S1 = (case S of c # t \<Rightarrow> if c = 43 \<or> c = 45 then t else S | [] \<Rightarrow> S)
      in if radix \<noteq> 0 \<and> (radix < 2 \<or> 36 < radix) then None
         else
           (let stripPrefix = (radix = 0 \<or> radix = 16);
                R0 = (if radix = 0 then 10 else radix);
                hex = (stripPrefix \<and> hasHexPrefix S1);
                R = (if hex then 16 else R0);
                S2 = (if hex then drop 2 S1 else S1);
                Z = takeWhile (isRadixDigit R) S2
            in if Z = [] then None else Some (sign * int (radixValue R Z))))"

text \<open>\<open>n || 0\<close> for a number: NaN and zero are falsy.\<close>

definition orZero :: "int option \<Rightarrow> int" where
  "orZero x = (case x of None \<Rightarrow> 0 | Some n \<Rightarrow> n)"

section \<open>Price parsing\<close>

text \<open>app.js: \<^verbatim>\<open>return parseInt(priceStr.replace(/[N,]/g, '')) || 0;\<close> where the
  class holds the naira sign and the comma.\<close>

definition parsePriceValue_app :: "jsstring \<Rightarrow> int" where
  "parsePriceValue_app priceStr =
     orZero (parseInt (filter (\<lambda>c. c \<noteq> NAIRA \<and> c \<noteq> COMMA) priceStr) 0)"

text \<open>staff.js: \<^verbatim>\<open>const digits = String(priceStr || '').replace(/[^\d]/g, '');
  return parseInt(digits, 10) || 0;\<close>\<close>

definition parsePriceValue_staff :: "jsstring \<Rightarrow> int" where
  "parsePriceValue_staff priceStr = orZero (parseInt (filter isDigit priceStr) 10)"

text \<open>The spec's words: the digits that remain, read in base 10; no digit reads 0.\<close>

definition decimalValue :: "jsstring \<Rightarrow> nat" where
  "decimalValue ds = foldl (\<lambda>acc c. 10 * acc + (c - 48)) 0 ds"

definition parsePrice_spec :: "jsstring \<Rightarrow> int" where
  "parsePrice_spec s = int (decimalValue (filter isDigit s))"


section \<open>CSV ingestion\<close>

subsection \<open>Row splitter (first loop of parseCSV, the same text in app.js and staff.js)\<close>

definition nextIs :: "jschar \<Rightarrow> jsstring \<Rightarrow> bool" where
  "nextIs q cs = (case cs of [] \<Rightarrow> False | n # _ \<Rightarrow> n = q)"

text \<open>\<^verbatim>\<open>if (currentRow.trim()) rows.push(currentRow);\<close>\<close>

definition pushRow :: "jsstring list \<Rightarrow> jsstring \<Rightarrow> jsstring list" where
  "pushRow rows currentRow = (if trim currentRow \<noteq> [] then rows @ [currentRow] else rows)"

fun splitRows :: "jsstring list \<Rightarrow> jsstring \<Rightarrow> bool \<Rightarrow> jsstring \<Rightarrow> jsstring list" where
  "splitRows rows currentRow inQuotes [] = pushRow rows currentRow"
| "splitRows rows currentRow inQuotes (c # cs) =
     (if c = DQUOTE then splitRows rows (currentRow @ [c]) (\<not> inQuotes) cs
      else if c = LF \<and> \<not> inQuotes then splitRows (pushRow rows currentRow) [] inQuotes cs
      else if c = CR \<and> nextIs LF cs \<and> \<not> inQuotes
        then splitRows (pushRow rows currentRow) [] inQuotes (drop 1 cs)
      else splitRows rows (currentRow @ [c]) inQuotes cs)"

subsection \<open>Field parser (parseCSVRow, the same text in both files)\<close>

fun parseCSVRow_loop :: "jsstring list \<Rightarrow> jsstring \<Rightarrow> bool \<Rightarrow> jsstring \<Rightarrow> jsstring list" where
  "parseCSVRow_loop fields currentField inQuotes [] = fields @ [trim currentField]"
| "parseCSVRow_loop fields currentField inQuotes (c # cs) =
     (if c = DQUOTE \<and> nextIs DQUOTE cs
        then parseCSVRow_loop fields (currentField @ [DQUOTE]) inQuotes (drop 1 cs)
      else if c = DQUOTE then parseCSVRow_loop fields currentField (\<not> inQuotes) cs
      else if c = COMMA \<and> \<not> inQuotes
        then parseCSVRow_loop (fields @ [trim currentField]) [] inQuotes cs
      else parseCSVRow_loop fields (currentField @ [c]) inQuotes cs)"

definition parseCSVRow :: "jsstring \<Rightarrow> jsstring list" where
  "parseCSVRow row = parseCSVRow_loop [] [] False row"

text \<open>\<^verbatim>\<open>f.replace(/^"(.*)"{1}$/, '$1').trim()\<close>: the pattern matches a string that
  begins and ends with a quote (two distinct characters) and has no line terminator
  between them, and the replacement keeps what is between them.\<close>

definition cleanField :: "jsstring \<Rightarrow> jsstring" where
  "cleanField f =
     trim (if 2 \<le> length f \<and> hd f = DQUOTE \<and> last f = DQUOTE
              \<and> \<not> list_ex isLineTerminator (butlast (tl f))
           then butlast (tl f) else f)"

subsection \<open>Variants\<close>

record variant =
  v_name :: jsstring
  v_price :: jsstring
  v_priceValue :: int

text \<open>
  The two patterns are \<^verbatim>\<open>/(.+?)\s*D\s*(N[\d,]+)/\<close> (app.js) and
  \<^verbatim>\<open>(.+?)\s*D\s*(.+)\<close> (staff.js), with D the em dash and N the naira sign.
  \<open>part.match\<close> tries each start position from the left; at one start the lazy group
  takes one character that is not a line terminator and grows by one each time the rest
  of the pattern fails; a greedy \<open>\s*\<close> takes one more white space first and gives
  it back when what follows fails. The functions below follow that order.
\<close>

fun greedyWs :: "(jsstring \<Rightarrow> 'a option) \<Rightarrow> jsstring \<Rightarrow> 'a option" where
  "greedyWs k [] = k []"
| "greedyWs k (c # cs) =
     (if isWhiteSpace c
      then (case greedyWs k cs of Some r \<Rightarrow> Some r | None \<Rightarrow> k (c # cs))
      else k (c # cs))"

definition isDigitOrComma :: "jschar \<Rightarrow> bool" where
  "isDigitOrComma c = (if isDigit c then True else c = COMMA)"

text \<open>The second group of app.js: the naira sign and the longest run of digits and commas,
  at least one.\<close>

definition nairaAmount :: "jsstring \<Rightarrow> jsstring option" where
  "nairaAmount s =
     (case s of [] \<Rightarrow> None
      | c # t \<Rightarrow> if c = NAIRA \<and> takeWhile isDigitOrComma t \<noteq> []
                 then Some (c # takeWhile isDigitOrComma t) else None)"

text \<open>The second group of staff.js: the longest run without a line terminator, at least
  one character.\<close>

definition dotPlus :: "jsstring \<Rightarrow> jsstring option" where
  "dotPlus s =
     (if takeWhile (\<lambda>c. \<not> isLineTerminator c) s = [] then None
      else Some (takeWhile (\<lambda>c. \<not> isLineTerminator c) s))"

text \<open>\<^verbatim>\<open>D\s*(group)\<close> and \<^verbatim>\<open>\s*D\s*(group)\<close>\<close>

definition afterDash :: "(jsstring \<Rightarrow> jsstring option) \<Rightarrow> jsstring \<Rightarrow> jsstring option" where
  "afterDash grp r =
     (case r of [] \<Rightarrow> None | c # t \<Rightarrow> if c = EM_DASH then greedyWs grp t else None)"

definition dashThen :: "(jsstring \<Rightarrow> jsstring option) \<Rightarrow> jsstring \<Rightarrow> jsstring option" where
  "dashThen grp s = greedyWs (afterDash grp) s"

fun lazyName :: "(jsstring \<Rightarrow> jsstring option) \<Rightarrow> jsstring \<Rightarrow> jsstring
    \<Rightarrow> (jsstring \<times> jsstring) option" where
  "lazyName rest acc [] = None"
| "lazyName rest acc (c # cs) =
     (if isLineTerminator c then None
      else (case rest cs of Some g \<Rightarrow> Some (acc @ [c], g)
            | None \<Rightarrow> lazyName rest (acc @ [c]) cs))"

fun matchFrom :: "(jsstring \<Rightarrow> jsstring option) \<Rightarrow> jsstring
    \<Rightarrow> (jsstring \<times> jsstring) option" where
  "matchFrom rest [] = None"
| "matchFrom rest (c # cs) =
     (case lazyName rest [] (c # cs) of Some m \<Rightarrow> Some m | None \<Rightarrow> matchFrom rest cs)"

definition variantOf_app :: "jsstring \<Rightarrow> variant option" where
  "variantOf_app part =
     (case matchFrom (dashThen nairaAmount) part of None \<Rightarrow> None
      | Some (m1, m2) \<Rightarrow>
          Some \<lparr>v_name = trim m1, v_price = trim m2, v_priceValue = parsePriceValue_app m2\<rparr>)"

definition parseVariants_app :: "jsstring \<Rightarrow> variant list" where
  "parseVariants_app variantsStr =
     (if trim variantsStr = [] then []
      else List.map_filter variantOf_app (splitOn PIPE [] variantsStr))"

definition variantOf_staff :: "jsstring \<Rightarrow> variant option" where
  "variantOf_staff part =
     (case matchFrom (dashThen dotPlus) part of None \<Rightarrow> None
      | Some (m1, m2) \<Rightarrow>
          Some \<lparr>v_name = trim m1, v_price = trim m2, v_priceValue = parsePriceValue_staff m2\<rparr>)"

definition parseVariants_staff :: "jsstring \<Rightarrow> variant list" where
  "parseVariants_staff variantsStr =
     (if trim variantsStr = [] then []
      else List.map_filter variantOf_staff (splitOn PIPE [] variantsStr))"


subsection \<open>Sorting\<close>

text \<open>\<open>Array.prototype.sort\<close> with a comparator is a stable sort. \<open>le a b\<close> stands
  for \<open>compare(a, b) <= 0\<close>: an element is put in front of the first element it does
  not have to follow.\<close>

fun insertSorted :: "('a \<Rightarrow> 'a \<Rightarrow> bool) \<Rightarrow> 'a \<Rightarrow> 'a list \<Rightarrow> 'a list" where
  "insertSorted le x [] = [x]"
| "insertSorted le x (y # ys) = (if le x y then x # y # ys else y # insertSorted le x ys)"

definition stableSort :: "('a \<Rightarrow> 'a \<Rightarrow> bool) \<Rightarrow> 'a list \<Rightarrow> 'a list" where
  "stableSort le xs = foldr (insertSorted le) xs []"

subsection \<open>Record builder\<close>

record product =
  idNum :: nat
  productId :: jsstring
  name :: jsstring
  description :: jsstring
  price :: jsstring
  priceValue :: int
  variants :: "variant list"
  category :: jsstring
  emoji :: jsstring
  imageUrl :: jsstring
  sameDay :: bool

record staffProduct =
  s_productId :: jsstring
  s_name :: jsstring
  s_description :: jsstring
  s_price :: jsstring
  s_priceValue :: int
  s_variants :: "variant list"
  s_imageUrl :: jsstring
  s_sameDay :: bool

text \<open>\<^verbatim>\<open>x.replace(/\n/g, ' ').trim()\<close>\<close>

definition collapseNewlines :: "jsstring \<Rightarrow> jsstring" where
  "collapseNewlines x = trim (map (\<lambda>c. if c = LF then SPACE else c) x)"

text \<open>\<^verbatim>\<open>sameDayColIdx >= 0 && cleanFields[sameDayColIdx]\<close>, then the comparison of the
  lower-cased cell with \<open>'true'\<close>.\<close>

definition sameDayOf :: "int \<Rightarrow> jsstring list \<Rightarrow> bool" where
  "sameDayOf sameDayColIdx cleanFields =
     (if 0 \<le> sameDayColIdx \<and> orEmpty (elemAt cleanFields (nat sameDayColIdx)) \<noteq> []
      then toLowerCase (orEmpty (elemAt cleanFields (nat sameDayColIdx))) = js ''true''
      else False)"

text \<open>
  The body of the row loop of app.js. \<open>None\<close> is a row that pushes nothing (the
  \<open>if\<close> that fails, or \<open>continue\<close>). The classifier functions
  \<open>categorizeProduct\<close> and \<open>getProductEmoji\<close> are total functions of the name; they
  are passed in, and the properties proved below hold whatever they return.
\<close>

definition rowProduct_app :: "(jsstring \<Rightarrow> jsstring) \<Rightarrow> (jsstring \<Rightarrow> jsstring) \<Rightarrow> int \<Rightarrow> nat
    \<Rightarrow> jsstring \<Rightarrow> product option" where
  "rowProduct_app categorizeProduct getProductEmoji sameDayColIdx nextId row =
     (let fields = parseCSVRow row;
          cleanFields = map cleanField fields
      in if 2 \<le> length cleanFields \<and> orEmpty (elemAt cleanFields 0) \<noteq> [] then
           (let prodId = elemAt cleanFields 0;
                name = elemAt cleanFields 1;
                description = elemAt cleanFields 2;
                finalPrice = elemAt cleanFields 3;
                variantsPrices = elemAt cleanFields 4;
                imageUrl = elemAt cleanFields 5;
                variants = parseVariants_app (orEmpty variantsPrices);
                displayPrice0 = trim (orEmpty finalPrice);
                displayPriceValue0 = parsePriceValue_app displayPrice0;
                fromVariant = (displayPrice0 = [] \<and> variants \<noteq> []);
                sorted = stableSort (\<lambda>a b. v_priceValue a - v_priceValue b \<le> 0) variants;
                displayPrice = (if fromVariant then v_price (hd sorted) else displayPrice0);
                displayPriceValue =
                  (if fromVariant then v_priceValue (hd sorted) else displayPriceValue0)
            in if displayPrice = [] then None
               else Some \<lparr>
                 idNum = nextId,
                 productId = orEmpty prodId,
                 name = collapseNewlines (orEmpty name),
                 description =
                   (if orEmpty description \<noteq> [] \<and> orEmpty description \<noteq> js ''No description''
                    then collapseNewlines (orEmpty description) else []),
                 price = displayPrice,
                 priceValue = displayPriceValue,
                 variants = variants,
                 category = categorizeProduct (orEmpty name),
                 emoji = getProductEmoji (orEmpty name),
                 imageUrl = orEmpty imageUrl,
                 sameDay = sameDayOf sameDayColIdx cleanFields\<rparr>)
         else None)"

text \<open>The row loop: \<open>productId++\<close> happens only when a product is pushed.\<close>

fun buildProducts_app :: "(jsstring \<Rightarrow> jsstring) \<Rightarrow> (jsstring \<Rightarrow> jsstring) \<Rightarrow> int \<Rightarrow> nat
    \<Rightarrow> jsstring list \<Rightarrow> product list" where
  "buildProducts_app cat emo idx nextId [] = []"
| "buildProducts_app cat emo idx nextId (row # rows) =
     (case rowProduct_app cat emo idx nextId row of
        None \<Rightarrow> buildProducts_app cat emo idx nextId rows
      | Some p \<Rightarrow> p # buildProducts_app cat emo idx (nextId + 1) rows)"

text \<open>\<^verbatim>\<open>const headerRow = rows[0] || ''; ... findIndex(h => h.toLowerCase().trim() === 'sameday')\<close>\<close>

definition sameDayColumn :: "jsstring list \<Rightarrow> int" where
  "sameDayColumn rows =
     findIndex (\<lambda>h. trim (toLowerCase h) = js ''sameday'')
       (parseCSVRow (orEmpty (elemAt rows 0)))"

definition parseCSV_app :: "(jsstring \<Rightarrow> jsstring) \<Rightarrow> (jsstring \<Rightarrow> jsstring) \<Rightarrow> jsstring
    \<Rightarrow> product list" where
  "parseCSV_app categorizeProduct getProductEmoji text =
     (let rows = splitRows [] [] False text
      in buildProducts_app categorizeProduct getProductEmoji (sameDayColumn rows) 1 (drop 1 rows))"

text \<open>The row loop of staff.js.\<close>

definition rowProduct_staff :: "int \<Rightarrow> jsstring \<Rightarrow> staffProduct option" where
  "rowProduct_staff sameDayColIdx row =
     (let fields = parseCSVRow row;
          cleanFields = map cleanField fields
      in if 2 \<le> length cleanFields \<and> orEmpty (elemAt cleanFields 0) \<noteq> [] then
           (let prodId = elemAt cleanFields 0;
                name = elemAt cleanFields 1;
                description = elemAt cleanFields 2;
                finalPrice = elemAt cleanFields 3;
                variantsPrices = elemAt cleanFields 4;
                imageUrl = elemAt cleanFields 5;
                variants = parseVariants_staff (orEmpty variantsPrices);
                displayPrice0 = trim (orEmpty finalPrice);
                displayPriceValue0 = parsePriceValue_staff displayPrice0;
                fromVariant = (displayPrice0 = [] \<and> variants \<noteq> []);
                sorted = stableSort (\<lambda>a b. v_priceValue a - v_priceValue b \<le> 0) variants;
                displayPrice = (if fromVariant then v_price (hd sorted) else displayPrice0);
                displayPriceValue =
                  (if fromVariant then v_priceValue (hd sorted) else displayPriceValue0)
            in if displayPrice = [] then None
               else Some \<lparr>
                 s_productId = orEmpty prodId,
                 s_name = collapseNewlines (orEmpty name),
                 s_description = collapseNewlines (orEmpty description),
                 s_price = displayPrice,
                 s_priceValue = displayPriceValue,
                 s_variants = variants,
                 s_imageUrl = orEmpty imageUrl,
                 s_sameDay = sameDayOf sameDayColIdx cleanFields\<rparr>)
         else None)"

fun buildProducts_staff :: "int \<Rightarrow> jsstring list \<Rightarrow> staffProduct list" where
  "buildProducts_staff idx [] = []"
| "buildProducts_staff idx (row # rows) =
     (case rowProduct_staff idx row of
        None \<Rightarrow> buildProducts_staff idx rows
      | Some p \<Rightarrow> p # buildProducts_staff idx rows)"

definition parseCSV_staff :: "jsstring \<Rightarrow> staffProduct list" where
  "parseCSV_staff text =
     (let rows = splitRows [] [] False text
      in buildProducts_staff (sameDayColumn rows) (drop 1 rows))"


section \<open>Prioritizer\<close>

definition featuredIds :: "jsstring list" where
  "featuredIds = [js ''PROD-1487'', js ''PROD-1488'']"

definition priorityKeywords :: "jsstring list" where
  "priorityKeywords = map js [''flower'', ''rose'', ''bouquet'', ''pizza'', ''drink'',
     ''beverage'', ''chicken'', ''ring'', ''engagement'', ''wedding'', ''document'',
     ''certificate'', ''processing'']"

text \<open>The first \<open>forEach\<close>: a \<open>Map\<close> from identifier to product, a later product
  with the same identifier replacing an earlier one.\<close>

definition featuredMapOf :: "product list \<Rightarrow> (jsstring \<rightharpoonup> product)" where
  "featuredMapOf products =
     foldl (\<lambda>featuredMap product.
              if List.member featuredIds (productId product)
              then featuredMap(productId product \<mapsto> product) else featuredMap)
       Map.empty products"

definition hasPriorityKeyword :: "product \<Rightarrow> bool" where
  "hasPriorityKeyword product =
     (let text = toLowerCase (name product @ [SPACE] @ description product)
      in list_ex (\<lambda>kw. includesStr text kw) priorityKeywords)"

text \<open>The second \<open>forEach\<close>: each remaining product is pushed to \<open>priority\<close> or to
  \<open>other\<close>.\<close>

definition partitionRemaining :: "product list \<Rightarrow> product list \<times> product list" where
  "partitionRemaining remaining =
     foldl (\<lambda>(priority, other) product.
              if hasPriorityKeyword product then (priority @ [product], other)
              else (priority, other @ [product]))
       ([], []) remaining"

definition prioritizeProducts :: "product list \<Rightarrow> product list" where
  "prioritizeProducts products =
     (let featuredMap = featuredMapOf products;
          remaining = filter (\<lambda>product. featuredMap (productId product) = None) products;
          prioritized = fst (partitionRemaining remaining) @ snd (partitionRemaining remaining);
          firstFeatured = featuredMap (featuredIds ! 0);
          secondFeatured = featuredMap (featuredIds ! 1)
      in case (firstFeatured, secondFeatured) of
           (Some f1, Some f2) \<Rightarrow>
             (let splitIndex = min 10 (length prioritized)
              in [f1] @ take splitIndex prioritized @ [f2] @ drop splitIndex prioritized)
         | (Some f1, None) \<Rightarrow> f1 # prioritized
         | (None, Some f2) \<Rightarrow> f2 # prioritized
         | (None, None) \<Rightarrow> prioritized)"

section \<open>Search\<close>

text \<open>\<open>s.split(/\s+/)\<close>: the pieces between maximal runs of white space; a run at
  either end leaves an empty piece there.\<close>

function splitWs :: "jsstring \<Rightarrow> jsstring \<Rightarrow> jsstring list" where
  "splitWs cur [] = [cur]"
| "splitWs cur (c # cs) =
     (if isWhiteSpace c then cur # splitWs [] (dropWhile isWhiteSpace cs)
      else splitWs (cur @ [c]) cs)"
  by pat_completeness auto
termination
  by (relation "measure (\<lambda>(cur, s). length s)")
     (auto simp: less_Suc_eq_le length_dropWhile_le)

text \<open>The subsequence loop: \<open>patternIdx\<close> after the scan of the string.\<close>

fun subseqScan :: "jsstring \<Rightarrow> jsstring \<Rightarrow> nat \<Rightarrow> nat" where
  "subseqScan [] pat patternIdx = patternIdx"
| "subseqScan (c # cs) pat patternIdx =
     (if patternIdx < length pat
      then (if c = pat ! patternIdx then subseqScan cs pat (patternIdx + 1)
            else subseqScan cs pat patternIdx)
      else patternIdx)"

text \<open>The weights 2, 1.5, 0.5 and 0 are exact as doubles and as rationals. \<open>lower\<close>
  is \<open>String.prototype.toLowerCase\<close>.\<close>

definition fuzzyMatch :: "(jsstring \<Rightarrow> jsstring) \<Rightarrow> jsstring \<Rightarrow> jsstring \<Rightarrow> rat" where
  "fuzzyMatch lower str pattern =
     (let strLower = lower str;
          patternLower = lower pattern
      in if includesStr strLower patternLower then 2
         else if list_ex (\<lambda>word. prefix patternLower word) (splitWs [] strLower) then 3 / 2
         else if 4 \<le> length patternLower then 0
         else if subseqScan strLower patternLower 0 = length patternLower then 1 / 2
         else 0)"

subsection \<open>Double arithmetic\<close>

text \<open>
  JavaScript numbers are IEEE 754 doubles. \<open>roundDouble\<close> is the rounding that every
  arithmetic operation and every decimal literal goes through: to the nearest number with
  a 53-bit significand, a tie to the one whose last bit is 0. \<open>binaryExponent\<close> is the
  exponent \<open>e\<close> with \<open>2^e \<le> a < 2^(e+1)\<close>, not below -1022 (the subnormal
  numbers share that exponent). Overflow to infinity, above 2^1024, is not modelled; the
  scores below stay under 6.
\<close>

function expUp :: "rat \<Rightarrow> nat" where
  "expUp x = (if 2 \<le> x then Suc (expUp (x / 2)) else 0)"
  by pat_completeness auto
termination
proof (relation "measure (\<lambda>x. nat \<lfloor>x\<rfloor>)")
  show "wf (measure (\<lambda>x::rat. nat \<lfloor>x\<rfloor>))" by simp
next
  fix x :: rat
  assume a: "2 \<le> x"
  have "\<lfloor>x / 2\<rfloor> < \<lfloor>x\<rfloor>"
  proof -
    have "x / 2 \<le> x - 1" using a by simp
    then have "\<lfloor>x / 2\<rfloor> \<le> \<lfloor>x - 1\<rfloor>" by (rule floor_mono)
    then show ?thesis by simp
  qed
  moreover have "0 < \<lfloor>x\<rfloor>" using a by simp
  ultimately show "(x / 2, x) \<in> measure (\<lambda>x. nat \<lfloor>x\<rfloor>)" by simp
qed

function expDown :: "rat \<Rightarrow> nat" where
  "expDown x = (if 0 < x \<and> x < 1 then Suc (expDown (2 * x)) else 0)"
  by pat_completeness auto
termination
proof (relation "measure (\<lambda>x. nat \<lfloor>1 / x\<rfloor>)")
  show "wf (measure (\<lambda>x::rat. nat \<lfloor>1 / x\<rfloor>))" by simp
next
  fix x :: rat
  assume a: "0 < x \<and> x < 1"
  then have y: "1 < 1 / x" by simp
  have "\<lfloor>1 / (2 * x)\<rfloor> < \<lfloor>1 / x\<rfloor>"
  proof (cases "2 \<le> 1 / x")
    case True
    have "1 / (2 * x) = (1 / x) / 2" by simp
    also have "\<dots> \<le> 1 / x - 1" using True by simp
    finally have "\<lfloor>1 / (2 * x)\<rfloor> \<le> \<lfloor>1 / x - 1\<rfloor>" by (rule floor_mono)
    then show ?thesis by simp
  next
    case False
    then have "1 / (2 * x) < 1" using a by (simp add: field_simps)
    moreover have "0 \<le> 1 / (2 * x)" using a by simp
    ultimately have "\<lfloor>1 / (2 * x)\<rfloor> = 0" by (simp add: floor_eq_iff)
    moreover have "1 \<le> \<lfloor>1 / x\<rfloor>" using y by (simp add: le_floor_iff)
    ultimately show ?thesis by simp
  qed
  moreover have "0 < \<lfloor>1 / x\<rfloor>" using y by (simp add: floor_less_iff less_floor_iff)
  ultimately show "(2 * x, x) \<in> measure (\<lambda>x. nat \<lfloor>1 / x\<rfloor>)" by simp
qed

definition binaryExponent :: "rat \<Rightarrow> int" where
  "binaryExponent a = max (int (expUp a) - int (expDown a)) (- 1022)"

definition roundHalfEven :: "rat \<Rightarrow> int" where
  "roundHalfEven q =
     (if q - of_int \<lfloor>q\<rfloor> < 1 / 2 then \<lfloor>q\<rfloor>
      else if 1 / 2 < q - of_int \<lfloor>q\<rfloor> then \<lfloor>q\<rfloor> + 1
      else if even \<lfloor>q\<rfloor> then \<lfloor>q\<rfloor> else \<lfloor>q\<rfloor> + 1)"

text \<open>A positive number rounded to a multiple of \<open>2^(e-52)\<close>.\<close>

definition roundAt :: "int \<Rightarrow> rat \<Rightarrow> rat" where
  "roundAt e a =
     (if e \<le> 52 then of_int (roundHalfEven (a * 2 ^ nat (52 - e))) / 2 ^ nat (52 - e)
      else of_int (roundHalfEven (a / 2 ^ nat (e - 52))) * 2 ^ nat (e - 52))"

definition roundDouble :: "rat \<Rightarrow> rat" where
  "roundDouble x =
     (if x = 0 then 0
      else if x < 0 then - roundAt (binaryExponent (- x)) (- x)
      else roundAt (binaryExponent x) x)"

text \<open>
  The score of one product, as the source computes it: each product and each sum is
  rounded, and the literals 0.7, 0.5 and 0.6 are the doubles nearest to them. The
  rounding is the parameter \<open>rnd\<close>: \<open>roundDouble\<close> is what the program does, the
  identity is arithmetic without rounding.
  \<^verbatim>\<open>.reduce((max, score) => Math.max(max, score), 0)\<close> is the fold with \<open>max\<close>.
\<close>

definition productScore :: "(rat \<Rightarrow> rat) \<Rightarrow> (jsstring \<Rightarrow> jsstring) \<Rightarrow> jsstring \<Rightarrow> product \<Rightarrow> rat" where
  "productScore rnd lower searchTerm product =
     (let nameScore = fuzzyMatch lower (name product) searchTerm;
          descScore = rnd (fuzzyMatch lower (description product) searchTerm * rnd (7 / 10));
          categoryScore = rnd (fuzzyMatch lower (category product) searchTerm * rnd (1 / 2));
          variantsScore =
            rnd (foldl (\<lambda>mx score. max mx score) 0
                   (map (\<lambda>v. fuzzyMatch lower (v_name v) searchTerm) (variants product))
                 * rnd (6 / 10))
      in rnd (rnd (rnd (nameScore + descScore) + categoryScore) + variantsScore))"

record appState =
  allProducts :: "product list"
  filteredProducts :: "product list"

text \<open>The comparator \<open>b.score - a.score\<close> is consulted for its sign only, and the
  difference of two doubles has the sign of their exact difference.\<close>

definition performSearch :: "(rat \<Rightarrow> rat) \<Rightarrow> (jsstring \<Rightarrow> jsstring) \<Rightarrow> jsstring \<Rightarrow> appState
    \<Rightarrow> appState" where
  "performSearch rnd lower searchTerm st =
     (if searchTerm = [] then st\<lparr>filteredProducts := allProducts st\<rparr>
      else st\<lparr>filteredProducts :=
        map fst
          (stableSort (\<lambda>a b. snd b - snd a \<le> 0)
            (filter (\<lambda>item. 0 < snd item)
              (map (\<lambda>product. (product, productScore rnd lower searchTerm product))
                 (allProducts st))))\<rparr>)"

section \<open>Filter engine\<close>

text \<open>The \<open>switch\<close> of applyCurrentFilters.\<close>

definition filterTagHolds :: "jsstring \<Rightarrow> product \<Rightarrow> bool" where
  "filterTagHolds activeFilter product =
     (if activeFilter = js ''hot''
        then category product = js ''Food'' \<or> category product = js ''Flowers''
             \<or> category product = js ''Teddy Bears''
      else if activeFilter = js ''under50k''
        then 0 < priceValue product \<and> priceValue product < 50000
      else if activeFilter = js ''budget-friendly''
        then 0 < priceValue product \<and> priceValue product \<le> 60000
      else if activeFilter = js ''best-value''
        then 50000 \<le> priceValue product \<and> priceValue product \<le> 90000
      else if activeFilter = js ''under100k''
        then 0 < priceValue product \<and> priceValue product < 100000
      else if activeFilter = js ''same-day'' then sameDay product
      else if activeFilter = js ''premium'' then 120000 \<le> priceValue product
      else True)"

text \<open>
  applyCurrentFilters reads two things from the page: the tag of the active filter pill
  (\<open>'all'\<close> when there is none) and the text of the search box. When the box is not
  empty it filters \<open>filteredProducts\<close> as it stands.
\<close>

definition applyCurrentFilters :: "(jsstring \<Rightarrow> jsstring) \<Rightarrow> jsstring \<Rightarrow> jsstring \<Rightarrow> appState
    \<Rightarrow> appState" where
  "applyCurrentFilters lower activeFilter searchInputValue st =
     (let searchTerm = trim (lower searchInputValue);
          products = (if searchTerm = [] then allProducts st else filteredProducts st);
          products' = (if activeFilter \<noteq> js ''all''
                       then filter (filterTagHolds activeFilter) products else products)
      in st\<lparr>filteredProducts := products'\<rparr>)"

text \<open>The handler of the search box: \<^verbatim>\<open>performSearch(searchTerm); applyCurrentFilters();\<close>\<close>

definition onSearchInput :: "(rat \<Rightarrow> rat) \<Rightarrow> (jsstring \<Rightarrow> jsstring) \<Rightarrow> jsstring \<Rightarrow> jsstring
    \<Rightarrow> appState \<Rightarrow> appState" where
  "onSearchInput rnd lower activeFilter searchInputValue st =
     applyCurrentFilters lower activeFilter searchInputValue
       (performSearch rnd lower (trim (lower searchInputValue)) st)"

text \<open>The handler of a filter pill: unless it is the pill that opens the categories,
  the pill becomes the active one and \<^verbatim>\<open>applyCurrentFilters()\<close> runs, without a new
  search.\<close>

definition onFilterPill :: "(jsstring \<Rightarrow> jsstring) \<Rightarrow> jsstring \<Rightarrow> jsstring \<Rightarrow> appState \<Rightarrow> appState" where
  "onFilterPill lower pillFilter searchInputValue st =
     (if pillFilter = js ''categories'' then st
      else applyCurrentFilters lower pillFilter searchInputValue st)"

definition categoryFilters :: "(jsstring \<times> jsstring list) list" where
  "categoryFilters = map (\<lambda>(k, kws). (js k, map js kws))
     [(''valentine'', [''valentine'', ''love'', ''heart'', ''romance'', ''rose'', ''cupid'']),
      (''birthday'', [''birthday'', ''celebration'', ''party'', ''gift'', ''cake'']),
      (''anniversary'', [''anniversary'', ''wedding'', ''engagement'', ''ring'', ''couple'']),
      (''holiday'', [''christmas'', ''holiday'', ''santa'', ''festive'', ''seasonal'']),
      (''jewelry'', [''ring'', ''necklace'', ''bracelet'', ''earring'', ''silver'', ''gold'',
                     ''jewelry'', ''pendant'']),
      (''watches'', [''watch'', ''timepiece'']),
      (''plush'', [''teddy'', ''bear'', ''plush'', ''stuffed'', ''toy'']),
      (''home'', [''mug'', ''basket'', ''cup'', ''home'', ''decor'']),
      (''fashion'', [''pants'', ''clothing'', ''apparel'', ''fashion'', ''wear'']),
      (''beauty'', [''beauty'', ''skincare'', ''cosmetic'']),
      (''for-her'', [''women'', ''woman'', ''her'', ''ladies'', ''female'']),
      (''for-him'', [''men'', ''man'', ''male'', ''mens'']),
      (''couples'', [''couple'', ''pair'', ''his and hers'']),
      (''trending'', []),
      (''bundles'', [''set'', ''bundle'', ''pack'', ''collection''])]"

text \<open>
  \<^verbatim>\<open>const keywords = categoryFilters[category] || [];\<close> The table is an object
  literal, so a name that it does not define is looked up in \<open>Object.prototype\<close>: for
  the names below the value is a function (for \<open>__proto__\<close> an object), which is truthy
  and has no \<open>some\<close>. Any other name gives \<open>undefined\<close> and so the empty list.
\<close>

definition objectPrototypeKeys :: "jsstring list" where
  "objectPrototypeKeys = map js [''constructor'', ''__defineGetter__'', ''__defineSetter__'',
     ''hasOwnProperty'', ''__lookupGetter__'', ''__lookupSetter__'', ''isPrototypeOf'',
     ''propertyIsEnumerable'', ''toString'', ''valueOf'', ''__proto__'', ''toLocaleString'']"

datatype keywordsValue = Keywords "jsstring list" | NotAnArray

definition categoryKeywords :: "jsstring \<Rightarrow> keywordsValue" where
  "categoryKeywords categoryTag =
     (case map_of categoryFilters categoryTag of
        Some kws \<Rightarrow> Keywords kws
      | None \<Rightarrow> if List.member objectPrototypeKeys categoryTag then NotAnArray else Keywords [])"

text \<open>The keyword test of one product: \<^verbatim>\<open>keywords.some(kw => text.includes(kw))\<close>.\<close>

definition textHasKeyword :: "(jsstring \<Rightarrow> jsstring) \<Rightarrow> jsstring list \<Rightarrow> product \<Rightarrow> bool" where
  "textHasKeyword lower keywords product =
     (let text = lower (name product @ [SPACE] @ description product)
      in list_ex (\<lambda>kw. includesStr text kw) keywords)"

datatype jsError = TypeError

text \<open>
  filterByCategory. \<open>keywords.some\<close> is called inside the callback of
  \<open>allProducts.filter\<close>: when the value is not an array the first product throws a
  TypeError, before \<open>filteredProducts\<close> is assigned; with no product nothing is called.
\<close>

definition filterByCategory :: "(jsstring \<Rightarrow> jsstring) \<Rightarrow> jsstring \<Rightarrow> appState \<Rightarrow> jsError + appState" where
  "filterByCategory lower categoryTag st =
     (if categoryTag = js ''trending''
      then Inr (st\<lparr>filteredProducts :=
             take 50 (filter (\<lambda>p. 40000 < priceValue p \<and> priceValue p < 100000) (allProducts st))\<rparr>)
      else
        (case categoryKeywords categoryTag of
           Keywords keywords \<Rightarrow>
             Inr (st\<lparr>filteredProducts := filter (textHasKeyword lower keywords) (allProducts st)\<rparr>)
         | NotAnArray \<Rightarrow>
             if allProducts st = [] then Inr (st\<lparr>filteredProducts := []\<rparr>) else Inl TypeError))"

section \<open>A small catalog for the concrete checks\<close>

definition mkProduct :: "nat \<Rightarrow> string \<Rightarrow> string \<Rightarrow> string \<Rightarrow> string \<Rightarrow> int \<Rightarrow> product" where
  "mkProduct i pid nm desc cat pv =
     \<lparr>idNum = i, productId = js pid, name = js nm, description = js desc, price = [],
      priceValue = pv, variants = [], category = js cat, emoji = [], imageUrl = [],
      sameDay = False\<rparr>"

definition exampleCatalog :: "product list" where
  "exampleCatalog =
     [mkProduct 1 ''PROD-1'' ''Rose Box'' ''red'' ''Flowers'' 30000,
      mkProduct 2 ''PROD-2'' ''Gold Ring'' ''rose gold'' ''Jewelry'' 80000,
      mkProduct 3 ''PROD-3'' ''Mug'' ''plain'' ''Custom Items'' 5000,
      mkProduct 4 ''PROD-4'' ''Red Rose'' ''single'' ''Flowers'' 60000]"

definition exampleState :: appState where
  "exampleState = \<lparr>allProducts = exampleCatalog, filteredProducts = exampleCatalog\<rparr>"

text \<open>
  Two products for the query \<open>cm\<close>. The first has it in its description only, as a
  substring: 2 times 0.7. In the second, name, description, category and the variant name
  each have \<open>c\<close> and \<open>m\<close> in order but apart: 0.5 + 0.5 times 0.7 + 0.5 times 0.5
  + 0.5 times 0.6.
\<close>

definition tieCatalog :: "product list" where
  "tieCatalog =
     [mkProduct 1 ''PROD-1'' ''Teddy Bear'' ''15cm tall'' ''Teddy Bears'' 20000,
      (mkProduct 2 ''PROD-2'' ''Ceramic Mug'' ''custom made'' ''Custom Items'' 5000)
        \<lparr>variants := [\<lparr>v_name = js ''Cream'', v_price = NAIRA # js ''5,000'',
                        v_priceValue = 5000\<rparr>]\<rparr>]"

definition tieState :: appState where
  "tieState = \<lparr>allProducts = tieCatalog, filteredProducts = tieCatalog\<rparr>"

text \<open>The capital dotted I, U+0130, twice as a query, and twice with a space between as a
  field.\<close>

definition dottedQuery :: jsstring where
  "dottedQuery = [304, 304]"

definition dottedField :: jsstring where
  "dottedField = [304, SPACE, 304]"

text \<open>The identifiers of the products on display, and of the result of a handler that may
  throw.\<close>

definition shownIds :: "appState \<Rightarrow> nat list" where
  "shownIds st = map idNum (filteredProducts st)"

definition shownIdsOf :: "jsError + appState \<Rightarrow> jsError + nat list" where
  "shownIdsOf r = (case r of Inl e \<Rightarrow> Inl e | Inr st \<Rightarrow> Inr (shownIds st))"

text \<open>A feed whose first row has an empty quoted identifier, and whose second row has an
  empty quoted price and an empty quoted variants cell.\<close>

definition feedEmptyQuoted :: jsstring where
  "feedEmptyQuoted = js ''id,name,desc,price,variants'' @ [LF]
     @ [DQUOTE, DQUOTE] @ js '',Rose,red,500'' @ [LF]
     @ [DQUOTE] @ js ''P3'' @ [DQUOTE, COMMA, DQUOTE] @ js ''Mug'' @ [DQUOTE, COMMA, DQUOTE]
     @ js ''plain'' @ [DQUOTE, COMMA, DQUOTE, DQUOTE, COMMA, DQUOTE, DQUOTE]"

definition pinnedCatalog :: "product list" where
  "pinnedCatalog =
     mkProduct 21 ''PROD-1488'' ''Gift Card'' ''paper'' ''Other'' 1000
     # map (\<lambda>i. mkProduct i ''PROD-9'' (if even i then ''Rose'' else ''Mug'') ''plain'' ''Other'' 100)
         [1, 2, 3, 4, 5, 6, 7, 8, 9, 10]
     @ [mkProduct 22 ''PROD-1487'' ''Teddy'' ''soft'' ''Other'' 2000]"

definition feedNoColumn :: jsstring where
  "feedNoColumn = js ''id,name,desc,price,variants,img,flag'' @ [LF]
     @ js ''P1,sameday,true,500,,x.png,true''"

definition feedWithColumn :: jsstring where
  "feedWithColumn = js ''id,name,desc,price,variants,img, SameDay '' @ [LF]
     @ js ''P1,Rose,red,500,,x.png,TRUE'' @ [LF]
     @ js ''P2,Mug,true,700,,y.png,no''"

definition rowPlain :: jsstring where
  "rowPlain = js ''P1,Rose,red,500''"

definition rowNoId :: jsstring where
  "rowNoId = js '',Rose,red,500''"

definition rowNoPrice :: jsstring where
  "rowNoPrice = js ''P3,Mug,plain,,''"

definition rowVariantsOnly :: jsstring where
  "rowVariantsOnly = js ''P4,Cup,plain,,'' @ [DQUOTE] @ js ''S '' @ [EM_DASH, SPACE, NAIRA]
     @ js ''2,000|L '' @ [EM_DASH, SPACE, NAIRA] @ js ''1,000'' @ [DQUOTE]"

definition feedFourRows :: jsstring where
  "feedFourRows = js ''id,name,desc,price,variants'' @ [LF] @ rowPlain @ [LF] @ rowNoId
     @ [CR, LF] @ rowNoPrice @ [LF] @ rowVariantsOnly"

text \<open>The acceptance test on the cells that the row parser and the cleaning step return
  for a row: at least two cells, a first cell that is not empty, and a price cell that is
  not empty or at least one parsed variant. Whether these cells are the fields of the row
  is the matter of the field parser.\<close>

definition cellsAccepted :: "jsstring \<Rightarrow> bool" where
  "cellsAccepted row =
     (let cells = map cleanField (parseCSVRow row)
      in 2 \<le> length cells \<and> hd cells \<noteq> []
         \<and> (trim (orEmpty (elemAt cells 3)) \<noteq> []
              \<or> parseVariants_app (orEmpty (elemAt cells 4)) \<noteq> []))"

section \<open>The specification's words, for comparison with the code\<close>

text \<open>A stable partition: the elements that satisfy the predicate, then the others, each
  group in its original order.\<close>

definition stablePartition_spec :: "('a \<Rightarrow> bool) \<Rightarrow> 'a list \<Rightarrow> 'a list" where
  "stablePartition_spec P xs = filter P xs @ filter (\<lambda>x. \<not> P x) xs"

text \<open>The pinned product of an identifier (the last one, when a feed repeats it) and the
  products that carry neither pinned identifier.\<close>

definition lastWithId :: "jsstring \<Rightarrow> product list \<Rightarrow> product" where
  "lastWithId k products = last (filter (\<lambda>p. productId p = k) products)"

definition notFeatured :: "product list \<Rightarrow> product list" where
  "notFeatured products = filter (\<lambda>p. \<not> List.member featuredIds (productId p)) products"

text \<open>The same-day flag in the specification's words: the header has a column whose
  trimmed, lower-cased text is \<open>sameday\<close> (the first such column counts), and the cell
  of the row in that column, lower-cased, is \<open>true\<close>.\<close>

definition isSameDayHeader :: "jsstring \<Rightarrow> bool" where
  "isSameDayHeader h = (trim (toLowerCase h) = js ''sameday'')"

definition sameDay_spec :: "jsstring list \<Rightarrow> jsstring list \<Rightarrow> bool" where
  "sameDay_spec header cells =
     (\<exists>i. i < length header \<and> isSameDayHeader (header ! i)
          \<and> \<not> list_ex isSameDayHeader (take i header)
          \<and> i < length cells \<and> toLowerCase (cells ! i) = js ''true'')"

text \<open>
  A variant entry of the form \<open>name D price-text\<close> (D the em dash): a name that is not
  empty, ends with a character that is not white space and has no em dash, pipe or line
  terminator; white space on either side of the dash; a price text that is not empty,
  starts with a character that is not white space and has no em dash and no pipe.
\<close>

definition entryShape :: "jsstring \<Rightarrow> jsstring \<Rightarrow> jsstring \<Rightarrow> jsstring \<Rightarrow> bool" where
  "entryShape nm ws1 ws2 pt =
     (nm \<noteq> [] \<and> \<not> isWhiteSpace (last nm)
      \<and> list_all (\<lambda>c. c \<noteq> EM_DASH \<and> c \<noteq> PIPE \<and> \<not> isLineTerminator c) nm
      \<and> list_all isWhiteSpace ws1 \<and> list_all isWhiteSpace ws2
      \<and> pt \<noteq> [] \<and> \<not> isWhiteSpace (hd pt)
      \<and> list_all (\<lambda>c. c \<noteq> EM_DASH \<and> c \<noteq> PIPE) pt)"

text \<open>The price text starts with the naira sign followed by a digit or a comma.\<close>

definition startsWithNairaAmount :: "jsstring \<Rightarrow> bool" where
  "startsWithNairaAmount pt =
     (case pt of c # d # _ \<Rightarrow> c = NAIRA \<and> isDigitOrComma d | _ \<Rightarrow> False)"

text \<open>The price text is the naira sign followed by digits and commas, at least one, and
  nothing else.\<close>

definition nairaText :: "jsstring \<Rightarrow> bool" where
  "nairaText pt =
     (case pt of [] \<Rightarrow> False | c # ds \<Rightarrow> c = NAIRA \<and> ds \<noteq> [] \<and> list_all isDigitOrComma ds)"

definition entryLarge50 :: jsstring where
  "entryLarge50 = js ''Large '' @ [EM_DASH] @ js '' $50''"

text \<open>Standard CSV quoting of a value: every quote doubled, the whole enclosed in quotes.\<close>

definition doubleQuotes :: "jsstring \<Rightarrow> jsstring" where
  "doubleQuotes v = concat (map (\<lambda>c. if c = DQUOTE then [DQUOTE, DQUOTE] else [c]) v)"

definition quoteField :: "jsstring \<Rightarrow> jsstring" where
  "quoteField v = DQUOTE # doubleQuotes v @ [DQUOTE]"

section \<open>Evaluation on concrete inputs\<close>

lemma floor_divide_numeral_rat:
  "\<lfloor>(numeral a :: rat) / numeral b\<rfloor> = numeral a div numeral b"
  using floor_divide_of_int_eq[of "numeral a" "numeral b", where ?'a = rat] by simp

lemmas double_defs = roundDouble_def roundAt_def binaryExponent_def roundHalfEven_def
  floor_divide_numeral_rat

lemmas builtin_defs = js_def char_defs isWhiteSpace_def isLineTerminator_def isDigit_def
  trim_def toLowerCase_def lowerUnits_def elemAt_def orEmpty_def

lemmas parseInt_defs = parseInt_def orZero_def isRadixDigit_def digitValue_def radixValue_def
  hasHexPrefix_def decimalValue_def parsePriceValue_app_def parsePriceValue_staff_def
  parsePrice_spec_def

lemmas csv_defs = nextIs_def pushRow_def parseCSVRow_def cleanField_def

lemmas variant_defs = isDigitOrComma_def nairaAmount_def dotPlus_def afterDash_def dashThen_def
  variantOf_app_def variantOf_staff_def parseVariants_app_def parseVariants_staff_def


lemmas search_defs = fuzzyMatch_def productScore_def performSearch_def stableSort_def
  mkProduct_def exampleCatalog_def exampleState_def

lemmas tie_defs = tieCatalog_def tieState_def

lemmas filter_defs = filterTagHolds_def applyCurrentFilters_def onSearchInput_def
  onFilterPill_def categoryFilters_def categoryKeywords_def textHasKeyword_def
  filterByCategory_def shownIds_def shownIdsOf_def

lemmas prioritize_defs = featuredIds_def priorityKeywords_def featuredMapOf_def
  hasPriorityKeyword_def partitionRemaining_def prioritizeProducts_def stablePartition_spec_def
  lastWithId_def notFeatured_def pinnedCatalog_def mkProduct_def

lemmas row_defs = rowPlain_def rowNoId_def rowNoPrice_def rowVariantsOnly_def feedFourRows_def
  cellsAccepted_def

lemmas record_defs = stableSort_def collapseNewlines_def sameDayOf_def rowProduct_app_def
  rowProduct_staff_def sameDayColumn_def parseCSV_app_def parseCSV_staff_def

section \<open>Price parsing: what the two implementations compute\<close>

lemma digit_not_ws: "isDigit c \<Longrightarrow> \<not> isWhiteSpace c"
  by (auto simp: isDigit_def isWhiteSpace_def)

lemma digit_radix10: "isDigit c \<Longrightarrow> isRadixDigit 10 c"
  by (auto simp: isDigit_def isRadixDigit_def digitValue_def)

lemma digit_value: "isDigit c \<Longrightarrow> the (digitValue c) = c - 48"
  by (auto simp: isDigit_def digitValue_def)

lemma radixValue_digits:
  "\<forall>c \<in> set ds. isDigit c \<Longrightarrow>
   foldl (\<lambda>acc c. acc * 10 + the (digitValue c)) a ds = foldl (\<lambda>acc c. 10 * acc + (c - 48)) a ds"
  by (induction ds arbitrary: a) (simp_all add: digit_value mult.commute)

lemma parseInt_digits:
  assumes "\<forall>c \<in> set ds. isDigit c"
  shows "parseInt ds 10 = (if ds = [] then None else Some (int (decimalValue ds)))"
proof (cases ds)
  case Nil
  then show ?thesis by (simp add: parseInt_def)
next
  case (Cons c cs)
  have d: "isDigit c" using assms Cons by simp
  have ne: "ds \<noteq> []" using Cons by simp
  have ws: "dropWhile isWhiteSpace ds = ds" using Cons d digit_not_ws by simp
  have sg: "c \<noteq> 45" "c \<noteq> 43" using d by (auto simp: isDigit_def)
  have S1: "(case ds of c # t \<Rightarrow> if c = 43 \<or> c = 45 then t else ds | [] \<Rightarrow> ds) = ds"
    using Cons sg by simp
  have sgn: "(case ds of c # _ \<Rightarrow> if c = 45 then - 1 else 1 | [] \<Rightarrow> (1::int)) = 1"
    using Cons sg by simp
  have tw: "takeWhile (isRadixDigit 10) ds = ds"
    using assms digit_radix10 by (simp add: takeWhile_eq_all_conv)
  have val: "radixValue 10 ds = decimalValue ds"
    using radixValue_digits[OF assms, of 0] by (simp add: radixValue_def decimalValue_def)
  show ?thesis
    unfolding parseInt_def Let_def ws S1 sgn
    using ne by (simp add: tw val)
qed

text \<open>staff.js does what the specification says, on every string.\<close>

lemma parsePriceValue_staff_spec: "parsePriceValue_staff s = parsePrice_spec s"
  using parseInt_digits[of "filter isDigit s"]
  by (simp add: parsePriceValue_staff_def parsePrice_spec_def orZero_def decimalValue_def)

lemma parsePriceValue_staff_nonneg: "0 \<le> parsePriceValue_staff s"
  by (simp add: parsePriceValue_staff_spec parsePrice_spec_def)

lemma parsePriceValue_examples:
  "parsePriceValue_staff (NAIRA # js ''12,500'') = 12500 \<and> parsePriceValue_staff [] = 0
   \<and> parsePriceValue_staff (js ''free'') = 0
   \<and> parsePriceValue_app (NAIRA # js ''12,500'') = 12500 \<and> parsePriceValue_app [] = 0
   \<and> parsePriceValue_app (js ''free'') = 0"
  by (simp add: builtin_defs parseInt_defs)

text \<open>
  C1. Price parsing strips every non-digit character and reads the digits that remain in
  base 10. staff.js does (\<open>parsePriceValue_staff_spec\<close>); app.js removes the naira sign
  and the commas only and hands the rest to \<open>parseInt\<close>, which stops at the first
  character that is not a digit: of \<open>$50\<close> it makes 0 where the digits read 50, and of
  \<open>12.50\<close> it makes 12 where the digits read 1250.
\<close>

theorem parsePriceValue_app_not_digit_stripping:
  "parsePriceValue_app (js ''$50'') = 0 \<and> parsePrice_spec (js ''$50'') = 50
   \<and> parsePriceValue_staff (js ''$50'') = 50
   \<and> parsePriceValue_app (js ''12.50'') = 12 \<and> parsePrice_spec (js ''12.50'') = 1250"
  by (simp add: builtin_defs parseInt_defs)

text \<open>
  C3. parsePriceValue returns a non-negative integer, so every product has a non-negative
  priceValue. staff.js does (\<open>parsePriceValue_staff_nonneg\<close>); app.js keeps the minus
  sign, \<open>parseInt\<close> reads it, and a row whose price cell is \<open>-500\<close> becomes a product
  with priceValue -500.
\<close>

theorem parsePriceValue_app_negative:
  "parsePriceValue_app (js ''-500'') = - 500
   \<and> map priceValue
        (parseCSV_app (\<lambda>n. []) (\<lambda>n. [])
           (js ''id,name,desc,price'' @ [LF] @ js ''P3,Ring,Gold,-500'')) = [- 500]"
  by (simp add: builtin_defs parseInt_defs csv_defs variant_defs record_defs Let_def)

section \<open>Fuzzy matching\<close>

lemma includesStr_sublist: "includesStr s p \<longleftrightarrow> sublist p s"
  by (induction s) (auto simp: sublist_Cons_right)

lemma subseqScan_subseq:
  "idx \<le> length p \<Longrightarrow> (subseqScan s p idx = length p) \<longleftrightarrow> subseq (drop idx p) s"
proof (induction s arbitrary: idx)
  case Nil
  then show ?case by (auto dest: list_emb_Nil2)
next
  case (Cons c cs)
  show ?case
  proof (cases "idx < length p")
    case True
    then have d: "drop idx p = p ! idx # drop (Suc idx) p"
      by (simp add: Cons_nth_drop_Suc)
    from True have le: "Suc idx \<le> length p" by simp
    show ?thesis
      using True Cons.IH[OF le] Cons.IH[OF Cons.prems] d by auto
  next
    case False
    then show ?thesis using Cons.prems by simp
  qed
qed

lemma sublist_of_suffix_part: "sublist w t \<Longrightarrow> sublist w (pre @ t)"
  by (metis sublist_appendI sublist_order.order.trans sublist_append_leftI)

lemma sublist_dropWhile: "sublist w (dropWhile P cs) \<Longrightarrow> sublist w cs"
proof -
  assume a: "sublist w (dropWhile P cs)"
  have "cs = takeWhile P cs @ dropWhile P cs" by simp
  then show ?thesis using a sublist_of_suffix_part by metis
qed

lemma splitWs_sublist: "w \<in> set (splitWs cur s) \<Longrightarrow> sublist w (cur @ s)"
proof (induction cur s rule: splitWs.induct)
  case (1 cur)
  then show ?case by simp
next
  case (2 cur c cs)
  show ?case
  proof (cases "isWhiteSpace c")
    case True
    with "2.prems" consider "w = cur" | "w \<in> set (splitWs [] (dropWhile isWhiteSpace cs))" by auto
    then show ?thesis
    proof cases
      case 1
      then show ?thesis by (simp add: sublist_append_rightI)
    next
      case 2
      with "2.IH"(1)[OF True] have "sublist w (dropWhile isWhiteSpace cs)" by simp
      then have "sublist w cs" by (rule sublist_dropWhile)
      then have "sublist w ((cur @ [c]) @ cs)" by (rule sublist_of_suffix_part)
      then show ?thesis by simp
    qed
  next
    case False
    with "2.prems" "2.IH"(2) show ?thesis by simp
  qed
qed

lemma no_word_prefix:
  assumes "\<not> sublist q f"
  shows "\<not> list_ex (\<lambda>word. prefix q word) (splitWs [] f)"
proof
  assume "list_ex (\<lambda>word. prefix q word) (splitWs [] f)"
  then obtain w where w: "w \<in> set (splitWs [] f)" "prefix q w" by (auto simp: list_ex_iff)
  from w(1) have "sublist w f" using splitWs_sublist[of w "[]" f] by simp
  moreover from w(2) have "sublist q w" by (rule prefix_imp_sublist)
  ultimately have "sublist q f" by (metis sublist_order.order.trans)
  with assms show False by simp
qed

text \<open>
  C4, as stated: the third stage gives 0 when the query has length 4 or more, and a
  shorter query goes on to the subsequence stage. fuzzyMatch measures the lower-cased
  query. The query of two capital dotted I has length 2 and lower-cases to four code
  units. In the field it is no substring and starts no word, and its characters appear in
  the field in order, lower-cased or not: the stages as stated give 0.5, and fuzzyMatch
  gives 0.
\<close>

theorem fuzzyMatch_length_counterexample:
  "length dottedQuery = 2
   \<and> length (toLowerCase dottedQuery) = 4
   \<and> \<not> sublist (toLowerCase dottedQuery) (toLowerCase dottedField)
   \<and> \<not> list_ex (prefix (toLowerCase dottedQuery)) (splitWs [] (toLowerCase dottedField))
   \<and> subseq (toLowerCase dottedQuery) (toLowerCase dottedField)
   \<and> subseq dottedQuery dottedField
   \<and> fuzzyMatch toLowerCase dottedField dottedQuery = 0"
proof -
  have ns: "\<not> includesStr (toLowerCase dottedField) (toLowerCase dottedQuery)"
    by (simp add: builtin_defs dottedQuery_def dottedField_def)
  have s1: "subseqScan (toLowerCase dottedField) (toLowerCase dottedQuery) 0
              = length (toLowerCase dottedQuery)"
    by (simp add: builtin_defs dottedQuery_def dottedField_def)
  have s2: "subseqScan dottedField dottedQuery 0 = length dottedQuery"
    by (simp add: builtin_defs dottedQuery_def dottedField_def)
  have w: "\<not> list_ex (prefix (toLowerCase dottedQuery)) (splitWs [] (toLowerCase dottedField))"
    by (simp add: builtin_defs dottedQuery_def dottedField_def)
  have v: "fuzzyMatch toLowerCase dottedField dottedQuery = 0"
    by (simp add: builtin_defs fuzzyMatch_def dottedQuery_def dottedField_def)
  have l: "length dottedQuery = 2 \<and> length (toLowerCase dottedQuery) = 4"
    by (simp add: builtin_defs dottedQuery_def)
  show ?thesis
    using ns s1 s2 w v l
      subseqScan_subseq[of 0 "toLowerCase dottedQuery" "toLowerCase dottedField"]
      subseqScan_subseq[of 0 dottedQuery dottedField]
    by (simp add: includesStr_sublist)
qed

text \<open>
  C4, amended. For every field and query, and whatever the case mapping does to them,
  fuzzyMatch returns the staged weights in order: 2 when the lower-cased query is a
  substring of the lower-cased field; else 1.5 when a white-space-delimited word of the
  lower-cased field starts with it; else 0 when the lower-cased query has four code units
  or more; else 0.5 when its code units appear in the lower-cased field in order, and 0
  otherwise. A word is a piece without white space that is bounded on each side by white
  space or by an end of the field.
\<close>

theorem fuzzyMatch_staged:
  "fuzzyMatch lower field query =
     (let f = lower field; q = lower query
      in if sublist q f then 2
         else if (\<exists>a w b. f = a @ w @ b \<and> (a = [] \<or> isWhiteSpace (last a))
                    \<and> (b = [] \<or> isWhiteSpace (hd b)) \<and> \<not> list_ex isWhiteSpace w
                    \<and> prefix q w) then 3 / 2
         else if 4 \<le> length q then 0
         else if subseq q f then 1 / 2
         else 0)"
proof -
  define f where "f = lower field"
  define q where "q = lower query"
  have scan: "(subseqScan f q 0 = length q) \<longleftrightarrow> subseq q f"
    using subseqScan_subseq[of 0 q f] by simp
  show ?thesis
  proof (cases "sublist q f")
    case True
    then show ?thesis
      by (simp add: fuzzyMatch_def Let_def includesStr_sublist f_def q_def)
  next
    case False
    have code: "\<not> list_ex (\<lambda>word. prefix q word) (splitWs [] f)"
      using False by (rule no_word_prefix)
    have spec: "\<not> (\<exists>a w b. f = a @ w @ b \<and> (a = [] \<or> isWhiteSpace (last a))
                    \<and> (b = [] \<or> isWhiteSpace (hd b)) \<and> \<not> list_ex isWhiteSpace w
                    \<and> prefix q w)"
    proof
      assume "\<exists>a w b. f = a @ w @ b \<and> (a = [] \<or> isWhiteSpace (last a))
                    \<and> (b = [] \<or> isWhiteSpace (hd b)) \<and> \<not> list_ex isWhiteSpace w
                    \<and> prefix q w"
      then obtain a w b where "f = a @ w @ b" "prefix q w" by blast
      then have "sublist q f"
        by (metis prefix_imp_sublist sublist_appendI sublist_order.order.trans)
      with False show False by simp
    qed
    show ?thesis
      using False code spec scan
      by (simp add: fuzzyMatch_def Let_def includesStr_sublist flip: f_def q_def)
  qed
qed

text \<open>A word that starts with the query contains it, so the second stage never fires.\<close>

lemma fuzzyMatch_values: "fuzzyMatch lower field query \<in> {2, 1 / 2, 0}"
  using no_word_prefix[of "lower query" "lower field"]
  by (auto simp: fuzzyMatch_def Let_def includesStr_sublist)

section \<open>Search ranking\<close>

lemma insertSorted_insort_key:
  "(\<And>a b. le a b \<longleftrightarrow> key a \<le> key b) \<Longrightarrow> insertSorted le x ys = insort_key key x ys"
  by (induction ys) simp_all

lemma stableSort_sort_key:
  assumes "\<And>a b. le a b \<longleftrightarrow> key a \<le> key b"
  shows "stableSort le xs = sort_key key xs"
  unfolding stableSort_def sort_key_def
  using insertSorted_insort_key[of le key, OF assms] by presburger

lemma insort_key_map_pair:
  "insort_key (\<lambda>it. g (snd it)) (x, f x) (map (\<lambda>p. (p, f p)) xs)
     = map (\<lambda>p. (p, f p)) (insort_key (\<lambda>p. g (f p)) x xs)"
  by (induction xs) simp_all

lemma sort_key_map_pair:
  "sort_key (\<lambda>it. g (snd it)) (map (\<lambda>p. (p, f p)) xs)
     = map (\<lambda>p. (p, f p)) (sort_key (\<lambda>p. g (f p)) xs)"
  by (induction xs) (simp_all add: insort_key_map_pair)

lemma performSearch_sort_key:
  assumes "searchTerm \<noteq> []"
  shows "filteredProducts (performSearch rnd lower searchTerm st)
     = sort_key (\<lambda>p. - productScore rnd lower searchTerm p)
         (filter (\<lambda>p. 0 < productScore rnd lower searchTerm p) (allProducts st))"
proof -
  let ?sc = "productScore rnd lower searchTerm"
  have ss: "stableSort (\<lambda>a b :: product \<times> rat. snd b - snd a \<le> 0) = sort_key (\<lambda>it. - snd it)"
    by (intro ext stableSort_sort_key) auto
  have flt: "filter (\<lambda>item. 0 < snd item) (map (\<lambda>p. (p, ?sc p)) (allProducts st))
      = map (\<lambda>p. (p, ?sc p)) (filter (\<lambda>p. 0 < ?sc p) (allProducts st))"
    by (simp add: filter_map comp_def)
  have "filteredProducts (performSearch rnd lower searchTerm st)
      = map fst (sort_key (\<lambda>it. - snd it)
          (map (\<lambda>p. (p, ?sc p)) (filter (\<lambda>p. 0 < ?sc p) (allProducts st))))"
    using assms unfolding performSearch_def ss flt by simp
  also have "\<dots> = sort_key (\<lambda>p. - ?sc p) (filter (\<lambda>p. 0 < ?sc p) (allProducts st))"
    by (simp add: sort_key_map_pair[where g = uminus] comp_def)
  finally show ?thesis .
qed

lemma fuzzyMatch_nonneg: "0 \<le> fuzzyMatch lower s q"
  by (simp add: fuzzyMatch_def Let_def)

lemma foldl_max_Max:
  fixes a :: "'a::linorder"
  shows "foldl max a xs = Max (set (a # xs))"
proof -
  have "(\<lambda>x s. max s x) = (max :: 'a \<Rightarrow> 'a \<Rightarrow> 'a)" by (intro ext) (rule max.commute)
  then have "foldl max a xs = fold max xs a" by (simp add: foldl_conv_fold)
  also have "\<dots> = Max (set (a # xs))" by (rule Max.set_eq_fold[symmetric])
  finally show ?thesis .
qed

lemma foldl_max_zero:
  fixes xs :: "rat list"
  assumes "\<forall>x \<in> set xs. 0 \<le> x"
  shows "foldl (\<lambda>mx score. max mx score) 0 xs = (if xs = [] then 0 else Max (set xs))"
proof (cases xs)
  case Nil
  then show ?thesis by simp
next
  case (Cons y ys)
  have "foldl max 0 xs = Max (insert 0 (set xs))" by (simp add: foldl_max_Max)
  also have "\<dots> = max 0 (Max (set xs))" using Cons by (simp add: Max_insert)
  also have "\<dots> = Max (set xs)"
    using assms Cons by (simp add: max_def Max_ge_iff) 
  finally show ?thesis using Cons by simp
qed

text \<open>The score, with the fold over the variants written as their maximum.\<close>

lemma productScore_formula:
  "productScore rnd lower searchTerm p =
     rnd (rnd (rnd (fuzzyMatch lower (name p) searchTerm
                    + rnd (fuzzyMatch lower (description p) searchTerm * rnd (7 / 10)))
               + rnd (fuzzyMatch lower (category p) searchTerm * rnd (1 / 2)))
          + rnd ((if variants p = [] then 0
                  else Max (set (map (\<lambda>v. fuzzyMatch lower (v_name v) searchTerm) (variants p))))
                 * rnd (6 / 10)))"
proof -
  have "foldl (\<lambda>mx score. max mx score) 0
          (map (\<lambda>v. fuzzyMatch lower (v_name v) searchTerm) (variants p))
     = (if variants p = [] then 0
        else Max (set (map (\<lambda>v. fuzzyMatch lower (v_name v) searchTerm) (variants p))))"
    using foldl_max_zero[of "map (\<lambda>v. fuzzyMatch lower (v_name v) searchTerm) (variants p)"]
    by (simp add: fuzzyMatch_nonneg)
  then show ?thesis by (simp add: productScore_def Let_def)
qed

text \<open>Without rounding the score is the sum of the weighted stages.\<close>

lemma productScore_exact:
  "productScore (\<lambda>x. x) lower searchTerm p =
     fuzzyMatch lower (name p) searchTerm + 7 / 10 * fuzzyMatch lower (description p) searchTerm
     + 1 / 2 * fuzzyMatch lower (category p) searchTerm
     + 6 / 10 * (if variants p = [] then 0
                 else Max (set (map (\<lambda>v. fuzzyMatch lower (v_name v) searchTerm) (variants p))))"
  by (simp add: productScore_formula)

lemma roundDouble_weights:
  "roundDouble (7 / 10) = 3152519739159347 / 4503599627370496
   \<and> roundDouble (1 / 2) = 1 / 2
   \<and> roundDouble (6 / 10) = 5404319552844595 / 9007199254740992"
  by (simp add: double_defs)

text \<open>
  C5, as stated: the score is the sum
  fuzzyMatch(name) + 0.7 fuzzyMatch(description) + 0.5 fuzzyMatch(category)
  + 0.6 (the largest fuzzyMatch over the variant names), and products of equal score keep
  their catalog order. For the query \<open>cm\<close> that sum is 7/5 for both products of the
  two-product catalog, so the first would stay first. The program adds doubles: the first
  product scores 2 times the double next to 0.7, the second 0.5 + 0.35 + 0.25 + 0.3 with a
  rounding after each step, which is one unit in the last place more, and the second
  product is shown first.
\<close>

theorem rounded_sum_breaks_tie_counterexample:
  "map (productScore (\<lambda>x. x) toLowerCase (js ''cm'')) tieCatalog = [7 / 5, 7 / 5]
   \<and> map (productScore roundDouble toLowerCase (js ''cm'')) tieCatalog
       = [6305039478318694 / 4503599627370496, 6305039478318695 / 4503599627370496]
   \<and> map idNum (filteredProducts (performSearch (\<lambda>x. x) toLowerCase (js ''cm'') tieState)) = [1, 2]
   \<and> map idNum (filteredProducts (performSearch roundDouble toLowerCase (js ''cm'') tieState))
       = [2, 1]"
proof -
  have fm: "fuzzyMatch toLowerCase (js ''Teddy Bear'') (js ''cm'') = 0"
    "fuzzyMatch toLowerCase (js ''15cm tall'') (js ''cm'') = 2"
    "fuzzyMatch toLowerCase (js ''Teddy Bears'') (js ''cm'') = 0"
    "fuzzyMatch toLowerCase (js ''Ceramic Mug'') (js ''cm'') = 1 / 2"
    "fuzzyMatch toLowerCase (js ''custom made'') (js ''cm'') = 1 / 2"
    "fuzzyMatch toLowerCase (js ''Custom Items'') (js ''cm'') = 1 / 2"
    "fuzzyMatch toLowerCase (js ''Cream'') (js ''cm'') = 1 / 2"
    by (simp_all add: builtin_defs fuzzyMatch_def)
  have ex: "map (productScore (\<lambda>x. x) toLowerCase (js ''cm'')) tieCatalog = [7 / 5, 7 / 5]"
    by (simp add: productScore_def tieCatalog_def mkProduct_def fm)
  have db: "map (productScore roundDouble toLowerCase (js ''cm'')) tieCatalog
       = [6305039478318694 / 4503599627370496, 6305039478318695 / 4503599627370496]"
    by (simp add: productScore_def tieCatalog_def mkProduct_def fm double_defs)
  have o1: "map idNum (filteredProducts (performSearch (\<lambda>x. x) toLowerCase (js ''cm'') tieState))
              = [1, 2]"
    by (simp add: builtin_defs search_defs tie_defs)
  have o2: "map idNum (filteredProducts (performSearch roundDouble toLowerCase (js ''cm'') tieState))
              = [2, 1]"
    by (simp add: builtin_defs search_defs tie_defs double_defs)
  show ?thesis using ex db o1 o2 by simp
qed

text \<open>
  C5, amended. For a non-empty query the score of a product is
  fuzzyMatch(name) + 0.7 fuzzyMatch(description) + 0.5 fuzzyMatch(category)
  + 0.6 (the largest fuzzyMatch over the variant names, 0 without variants) as double
  arithmetic computes it: the three weights, each product and each sum, from left to
  right, rounded. The result holds exactly the products of the catalog whose score, so
  computed, is positive (with their multiplicity), in descending order of that score,
  products of equal computed score in their catalog order. The statement is for every
  rounding \<open>rnd\<close> and case mapping \<open>lower\<close>; the program is the instance
  \<open>roundDouble\<close>.
\<close>

theorem performSearch_ranked:
  assumes "searchTerm \<noteq> []"
  shows "(\<forall>p. productScore rnd lower searchTerm p =
            rnd (rnd (rnd (fuzzyMatch lower (name p) searchTerm
                           + rnd (fuzzyMatch lower (description p) searchTerm * rnd (7 / 10)))
                      + rnd (fuzzyMatch lower (category p) searchTerm * rnd (1 / 2)))
                 + rnd ((if variants p = [] then 0
                         else Max (set (map (\<lambda>v. fuzzyMatch lower (v_name v) searchTerm)
                                          (variants p))))
                        * rnd (6 / 10))))
     \<and> mset (filteredProducts (performSearch rnd lower searchTerm st))
         = mset (filter (\<lambda>p. 0 < productScore rnd lower searchTerm p) (allProducts st))
     \<and> sorted_wrt (\<lambda>a b. productScore rnd lower searchTerm b \<le> productScore rnd lower searchTerm a)
         (filteredProducts (performSearch rnd lower searchTerm st))
     \<and> (\<forall>k. filter (\<lambda>p. productScore rnd lower searchTerm p = k)
               (filteredProducts (performSearch rnd lower searchTerm st))
           = filter (\<lambda>p. productScore rnd lower searchTerm p = k)
               (filter (\<lambda>p. 0 < productScore rnd lower searchTerm p) (allProducts st)))"
proof -
  let ?sc = "productScore rnd lower searchTerm"
  let ?pos = "filter (\<lambda>p. 0 < ?sc p) (allProducts st)"
  note eq = performSearch_sort_key[OF assms, of rnd lower st]
  have m: "mset (sort_key (\<lambda>p. - ?sc p) ?pos) = mset ?pos" by simp
  have "sorted (map (\<lambda>p. - ?sc p) (sort_key (\<lambda>p. - ?sc p) ?pos))" by (rule sorted_sort_key)
  then have s: "sorted_wrt (\<lambda>a b. ?sc b \<le> ?sc a) (sort_key (\<lambda>p. - ?sc p) ?pos)"
    by (simp add: sorted_map)
  have st: "\<And>k. filter (\<lambda>p. ?sc p = k) (sort_key (\<lambda>p. - ?sc p) ?pos) = filter (\<lambda>p. ?sc p = k) ?pos"
  proof -
    fix k
    have "filter (\<lambda>p. - ?sc p = - k) (sort_key (\<lambda>p. - ?sc p) ?pos) = filter (\<lambda>p. - ?sc p = - k) ?pos"
      by (rule sort_key_stable)
    then show "filter (\<lambda>p. ?sc p = k) (sort_key (\<lambda>p. - ?sc p) ?pos) = filter (\<lambda>p. ?sc p = k) ?pos"
      by simp
  qed
  have f: "\<forall>p. ?sc p =
            rnd (rnd (rnd (fuzzyMatch lower (name p) searchTerm
                           + rnd (fuzzyMatch lower (description p) searchTerm * rnd (7 / 10)))
                      + rnd (fuzzyMatch lower (category p) searchTerm * rnd (1 / 2)))
                 + rnd ((if variants p = [] then 0
                         else Max (set (map (\<lambda>v. fuzzyMatch lower (v_name v) searchTerm)
                                          (variants p))))
                        * rnd (6 / 10)))"
    using productScore_formula by blast
  show ?thesis
    unfolding eq using m s st f by blast
qed

theorem performSearch_ranked_witness:
  "js ''rose'' \<noteq> []
   \<and> map idNum (filteredProducts (performSearch roundDouble toLowerCase (js ''rose'') exampleState))
       = [1, 4, 2]
   \<and> sorted_wrt (\<lambda>a b. productScore roundDouble toLowerCase (js ''rose'') b
                        \<le> productScore roundDouble toLowerCase (js ''rose'') a)
        (filteredProducts (performSearch roundDouble toLowerCase (js ''rose'') exampleState))"
proof -
  have h: "js ''rose'' \<noteq> []" by (simp add: js_def)
  have ev: "map idNum (filteredProducts (performSearch roundDouble toLowerCase (js ''rose'') exampleState))
              = [1, 4, 2]"
    by (simp add: builtin_defs search_defs double_defs)
  show ?thesis
    using h ev performSearch_ranked[OF h, of roundDouble toLowerCase exampleState] by blast
qed

section \<open>Search and filters together\<close>

lemma allProducts_performSearch:
  "allProducts (performSearch rnd lower searchTerm st) = allProducts st"
  by (simp add: performSearch_def)

lemma search_rose_example:
  "map idNum (filteredProducts (performSearch (\<lambda>x. x) toLowerCase (js ''rose'') exampleState))
     = [1, 4, 2]"
  by (simp add: builtin_defs search_defs)

text \<open>
  C2, as stated: with a search query present, a filter tag or a category tag narrows the
  search-narrowed list further. In the example catalog the query \<open>rose\<close> leaves the
  products 1, 4 and 2, all of them under 100,000.
  The category tag \<open>home\<close> applied next shows product 3, which the search had removed.
  With \<open>rose\<close> in the box and the pill \<open>under50k\<close> active, product 1 is shown; the
  pill \<open>under100k\<close> pressed next filters what is shown and leaves product 1, not the
  three products of the search. The pill \<open>under50k\<close> pressed after the category
  \<open>home\<close> leaves product 3.
\<close>

theorem category_ignores_search_counterexample:
  "shownIds (performSearch (\<lambda>x. x) toLowerCase (js ''rose'') exampleState) = [1, 4, 2]
   \<and> map idNum (filter (filterTagHolds (js ''under100k''))
        (filteredProducts (performSearch (\<lambda>x. x) toLowerCase (js ''rose'') exampleState)))
       = [1, 4, 2]
   \<and> shownIdsOf (filterByCategory toLowerCase (js ''home'')
        (performSearch (\<lambda>x. x) toLowerCase (js ''rose'') exampleState)) = Inr [3]
   \<and> shownIds (onSearchInput (\<lambda>x. x) toLowerCase (js ''under50k'') (js ''rose'') exampleState)
       = [1]
   \<and> shownIds (onFilterPill toLowerCase (js ''under100k'') (js ''rose'')
        (onSearchInput (\<lambda>x. x) toLowerCase (js ''under50k'') (js ''rose'') exampleState))
       = [1]
   \<and> map_sum id (shownIds \<circ> onFilterPill toLowerCase (js ''under50k'') (js ''rose''))
        (filterByCategory toLowerCase (js ''home'')
           (performSearch (\<lambda>x. x) toLowerCase (js ''rose'') exampleState))
       = Inr [3]"
  by (simp add: builtin_defs search_defs filter_defs)

text \<open>
  C2, amended. The handler of the search box runs the search and then applies the active
  filter tag to the list the search left. When the search term is empty the filter tag is
  applied to the full catalog, in the handler of the search box and in the handler of a
  filter pill. A category tag of the category table is applied to the full catalog,
  whatever the search query was. What a filter pill shows while the search box holds a
  query is not part of the statement.
\<close>

theorem search_then_filter_tag:
  assumes "map_of categoryFilters categoryTag = Some keywords"
  shows "filteredProducts (onSearchInput rnd lower activeFilter searchInputValue st) =
     (if trim (lower searchInputValue) = []
      then (if activeFilter = js ''all'' then allProducts st
            else filter (filterTagHolds activeFilter) (allProducts st))
      else (if activeFilter = js ''all''
            then filteredProducts (performSearch rnd lower (trim (lower searchInputValue)) st)
            else filter (filterTagHolds activeFilter)
                   (filteredProducts (performSearch rnd lower (trim (lower searchInputValue)) st))))
   \<and> (trim (lower searchInputValue) = [] \<and> activeFilter \<noteq> js ''categories'' \<longrightarrow>
        filteredProducts (onFilterPill lower activeFilter searchInputValue st) =
          (if activeFilter = js ''all'' then allProducts st
           else filter (filterTagHolds activeFilter) (allProducts st)))
   \<and> filterByCategory lower categoryTag (performSearch rnd lower searchTerm st) =
       Inr (st\<lparr>filteredProducts :=
              if categoryTag = js ''trending''
              then take 50 (filter (\<lambda>p. 40000 < priceValue p \<and> priceValue p < 100000)
                              (allProducts st))
              else filter (textHasKeyword lower keywords) (allProducts st)\<rparr>)"
proof -
  have a: "filteredProducts (onSearchInput rnd lower activeFilter searchInputValue st) =
     (if trim (lower searchInputValue) = []
      then (if activeFilter = js ''all'' then allProducts st
            else filter (filterTagHolds activeFilter) (allProducts st))
      else (if activeFilter = js ''all''
            then filteredProducts (performSearch rnd lower (trim (lower searchInputValue)) st)
            else filter (filterTagHolds activeFilter)
                   (filteredProducts (performSearch rnd lower (trim (lower searchInputValue)) st))))"
    by (simp add: onSearchInput_def applyCurrentFilters_def Let_def allProducts_performSearch)
  have b: "trim (lower searchInputValue) = [] \<and> activeFilter \<noteq> js ''categories'' \<longrightarrow>
        filteredProducts (onFilterPill lower activeFilter searchInputValue st) =
          (if activeFilter = js ''all'' then allProducts st
           else filter (filterTagHolds activeFilter) (allProducts st))"
    by (simp add: onFilterPill_def applyCurrentFilters_def Let_def)
  have c: "filterByCategory lower categoryTag (performSearch rnd lower searchTerm st) =
       Inr (st\<lparr>filteredProducts :=
              if categoryTag = js ''trending''
              then take 50 (filter (\<lambda>p. 40000 < priceValue p \<and> priceValue p < 100000)
                              (allProducts st))
              else filter (textHasKeyword lower keywords) (allProducts st)\<rparr>)"
    using assms
    by (simp add: filterByCategory_def categoryKeywords_def performSearch_def)
  show ?thesis using a b c by simp
qed

theorem search_then_filter_tag_witness:
  "map_of categoryFilters (js ''home'') = Some (map js [''mug'', ''basket'', ''cup'', ''home'', ''decor''])
   \<and> trim (toLowerCase []) = [] \<and> js ''under50k'' \<noteq> js ''categories''
   \<and> shownIds (onSearchInput (\<lambda>x. x) toLowerCase (js ''under50k'') (js ''Rose '') exampleState) = [1]
   \<and> shownIds (onFilterPill toLowerCase (js ''under50k'') [] exampleState) = [1, 3]
   \<and> shownIdsOf (filterByCategory toLowerCase (js ''home'')
        (performSearch (\<lambda>x. x) toLowerCase (js ''rose'') exampleState)) = Inr [3]"
proof -
  have h: "map_of categoryFilters (js ''home'')
             = Some (map js [''mug'', ''basket'', ''cup'', ''home'', ''decor''])"
    by (simp add: categoryFilters_def js_def)
  have t: "trim (toLowerCase (js ''Rose '')) = js ''rose''" "js ''rose'' \<noteq> []"
    "trim (toLowerCase []) = []" "js ''under50k'' \<noteq> js ''all''"
    "js ''under50k'' \<noteq> js ''categories''" "js ''home'' \<noteq> js ''trending''"
    by (simp_all add: builtin_defs)
  have f1: "map idNum (filter (filterTagHolds (js ''under50k''))
              (filteredProducts (performSearch (\<lambda>x. x) toLowerCase (js ''rose'') exampleState)))
            = [1]"
    by (simp add: builtin_defs search_defs filter_defs)
  have f2: "map idNum (filter (filterTagHolds (js ''under50k'')) (allProducts exampleState)) = [1, 3]"
    by (simp add: builtin_defs search_defs filter_defs)
  have f3: "map idNum (filter (textHasKeyword toLowerCase
              (map js [''mug'', ''basket'', ''cup'', ''home'', ''decor''])) (allProducts exampleState))
            = [3]"
    by (simp add: builtin_defs search_defs filter_defs)
  note th = search_then_filter_tag[OF h, of "\<lambda>x. x" toLowerCase]
  have w1: "shownIds (onSearchInput (\<lambda>x. x) toLowerCase (js ''under50k'') (js ''Rose '') exampleState)
              = [1]"
    using th[of "js ''under50k''" "js ''Rose ''" exampleState "js ''rose''"] f1
    by (simp add: shownIds_def t)
  have w2: "shownIds (onFilterPill toLowerCase (js ''under50k'') [] exampleState) = [1, 3]"
    using th[of "js ''under50k''" "[]" exampleState "js ''rose''"] f2
    by (simp add: shownIds_def t)
  have w3: "shownIdsOf (filterByCategory toLowerCase (js ''home'')
        (performSearch (\<lambda>x. x) toLowerCase (js ''rose'') exampleState)) = Inr [3]"
    using th[of "js ''under50k''" "[]" exampleState "js ''rose''"] f3
    by (simp add: shownIdsOf_def shownIds_def t)
  show ?thesis using h t(3) t(5) w1 w2 w3 by simp
qed

text \<open>
  A name that the category table does not define is looked up in \<open>Object.prototype\<close>:
  for \<open>constructor\<close> the handler throws on the first product. A name found in neither
  gives no keyword and an empty display.
\<close>

lemma filterByCategory_inherited_key:
  "filterByCategory toLowerCase (js ''constructor'') exampleState = Inl TypeError
   \<and> shownIdsOf (filterByCategory toLowerCase (js ''gadgets'') exampleState) = Inr []"
  by (simp add: builtin_defs filter_defs objectPrototypeKeys_def exampleState_def
      exampleCatalog_def mkProduct_def)

section \<open>Prioritizer: pinned products and the keyword partition\<close>

lemma featuredMap_fold:
  fixes f :: "(jsstring \<rightharpoonup> product) \<Rightarrow> product \<Rightarrow> (jsstring \<rightharpoonup> product)"
  defines "f \<equiv> \<lambda>featuredMap product.
              if List.member featuredIds (productId product)
              then featuredMap(productId product \<mapsto> product) else featuredMap"
  shows "foldl f m ps k
   = (if List.member featuredIds k \<and> filter (\<lambda>p. productId p = k) ps \<noteq> []
      then Some (last (filter (\<lambda>p. productId p = k) ps)) else m k)"
proof (induction ps arbitrary: m)
  case Nil
  then show ?case by simp
next
  case (Cons p ps)
  have "foldl f m (p # ps) k = foldl f (f m p) ps k" by simp
  also have "\<dots> = (if List.member featuredIds k \<and> filter (\<lambda>p. productId p = k) ps \<noteq> []
      then Some (last (filter (\<lambda>p. productId p = k) ps)) else (f m p) k)"
    by (rule Cons.IH)
  also have "\<dots> = (if List.member featuredIds k \<and> filter (\<lambda>p. productId p = k) (p # ps) \<noteq> []
      then Some (last (filter (\<lambda>p. productId p = k) (p # ps))) else m k)"
    by (auto simp: f_def)
  finally show ?case .
qed

lemma featuredMapOf_lookup:
  "featuredMapOf products k
   = (if List.member featuredIds k \<and> filter (\<lambda>p. productId p = k) products \<noteq> []
      then Some (lastWithId k products) else None)"
  unfolding featuredMapOf_def featuredMap_fold lastWithId_def by simp

lemma partition_fold:
  "foldl (\<lambda>(priority, other) product.
              if P product then (priority @ [product], other)
              else (priority, other @ [product])) (a, b) xs
   = (a @ filter P xs, b @ filter (\<lambda>x. \<not> P x) xs)"
  by (induction xs arbitrary: a b) simp_all

lemma partitionRemaining_spec:
  "fst (partitionRemaining xs) @ snd (partitionRemaining xs) = stablePartition_spec hasPriorityKeyword xs"
  by (simp add: partitionRemaining_def partition_fold stablePartition_spec_def)

lemma remaining_notFeatured:
  "filter (\<lambda>product. featuredMapOf products (productId product) = None) products = notFeatured products"
  unfolding notFeatured_def
  by (rule filter_cong) (auto simp: featuredMapOf_lookup filter_empty_conv)

lemma prioritizeProducts_unfold:
  "prioritizeProducts products =
     (let prioritized = stablePartition_spec hasPriorityKeyword (notFeatured products)
      in case (featuredMapOf products (js ''PROD-1487''), featuredMapOf products (js ''PROD-1488'')) of
           (Some f1, Some f2) \<Rightarrow>
              [f1] @ take (min 10 (length prioritized)) prioritized @ [f2]
                @ drop (min 10 (length prioritized)) prioritized
         | (Some f1, None) \<Rightarrow> f1 # prioritized
         | (None, Some f2) \<Rightarrow> f2 # prioritized
         | (None, None) \<Rightarrow> prioritized)"
  unfolding prioritizeProducts_def Let_def remaining_notFeatured partitionRemaining_spec
  by (simp add: featuredIds_def)

lemma occurs_lookup:
  "k \<in> set featuredIds \<Longrightarrow>
   featuredMapOf products k = (if k \<in> productId ` set products then Some (lastWithId k products) else None)"
  by (auto simp: featuredMapOf_lookup filter_empty_conv image_iff)

lemma productId_lastWithId: "k \<in> productId ` set products \<Longrightarrow> productId (lastWithId k products) = k"
proof -
  assume "k \<in> productId ` set products"
  then have ne: "filter (\<lambda>p. productId p = k) products \<noteq> []" by (auto simp: filter_empty_conv)
  then have "last (filter (\<lambda>p. productId p = k) products) \<in> set (filter (\<lambda>p. productId p = k) products)"
    by (rule last_in_set)
  then show ?thesis by (simp add: lastWithId_def)
qed

text \<open>
  C8. When both pinned identifiers occur in the list, prioritizeProducts puts the product
  of the first at index 0 and the product of the second at index min(10, len) + 1, where
  len is the length of the remaining list, which is the stable partition of the other
  products by the keyword test; with ten or more other products that index is 11. When
  only one pinned identifier occurs, its product is put in front of that partition.
\<close>

theorem prioritizeProducts_pinned:
  "(js ''PROD-1487'' \<in> productId ` set products \<and> js ''PROD-1488'' \<in> productId ` set products \<longrightarrow>
      (let prioritized = stablePartition_spec hasPriorityKeyword (notFeatured products);
           len = length prioritized;
           res = prioritizeProducts products
       in res = [lastWithId (js ''PROD-1487'') products] @ take (min 10 len) prioritized
                  @ [lastWithId (js ''PROD-1488'') products] @ drop (min 10 len) prioritized
          \<and> productId (res ! 0) = js ''PROD-1487''
          \<and> productId (res ! (min 10 len + 1)) = js ''PROD-1488''
          \<and> (10 \<le> len \<longrightarrow> productId (res ! 11) = js ''PROD-1488'')))
   \<and> (js ''PROD-1487'' \<in> productId ` set products \<and> js ''PROD-1488'' \<notin> productId ` set products \<longrightarrow>
        prioritizeProducts products = lastWithId (js ''PROD-1487'') products
           # stablePartition_spec hasPriorityKeyword (notFeatured products))
   \<and> (js ''PROD-1487'' \<notin> productId ` set products \<and> js ''PROD-1488'' \<in> productId ` set products \<longrightarrow>
        prioritizeProducts products = lastWithId (js ''PROD-1488'') products
           # stablePartition_spec hasPriorityKeyword (notFeatured products))"
proof -
  let ?pr = "stablePartition_spec hasPriorityKeyword (notFeatured products)"
  let ?k = "min 10 (length ?pr)"
  have m1: "js ''PROD-1487'' \<in> set featuredIds" and m2: "js ''PROD-1488'' \<in> set featuredIds"
    by (simp_all add: featuredIds_def)
  note l1 = occurs_lookup[OF m1, of products] and l2 = occurs_lookup[OF m2, of products]
  have both: "prioritizeProducts products
        = [lastWithId (js ''PROD-1487'') products] @ take ?k ?pr
            @ [lastWithId (js ''PROD-1488'') products] @ drop ?k ?pr"
    if "js ''PROD-1487'' \<in> productId ` set products" "js ''PROD-1488'' \<in> productId ` set products"
    using that by (simp add: prioritizeProducts_unfold l1 l2 Let_def)
  have idx: "([a] @ take ?k ?pr @ [b] @ drop ?k ?pr) ! (?k + 1) = b" for a b :: product
    by (simp add: nth_append)
  have part1: "js ''PROD-1487'' \<in> productId ` set products \<and> js ''PROD-1488'' \<in> productId ` set products \<longrightarrow>
      (let prioritized = ?pr; len = length prioritized; res = prioritizeProducts products
       in res = [lastWithId (js ''PROD-1487'') products] @ take (min 10 len) prioritized
                  @ [lastWithId (js ''PROD-1488'') products] @ drop (min 10 len) prioritized
          \<and> productId (res ! 0) = js ''PROD-1487''
          \<and> productId (res ! (min 10 len + 1)) = js ''PROD-1488''
          \<and> (10 \<le> len \<longrightarrow> productId (res ! 11) = js ''PROD-1488''))"
  proof (intro impI, elim conjE)
    assume a: "js ''PROD-1487'' \<in> productId ` set products" "js ''PROD-1488'' \<in> productId ` set products"
    note b = both[OF a]
    have i0: "productId (prioritizeProducts products ! 0) = js ''PROD-1487''"
      unfolding b using productId_lastWithId[OF a(1)] by simp
    have ik: "productId (prioritizeProducts products ! (?k + 1)) = js ''PROD-1488''"
      unfolding b idx using productId_lastWithId[OF a(2)] by simp
    have i11: "10 \<le> length ?pr \<longrightarrow> productId (prioritizeProducts products ! 11) = js ''PROD-1488''"
    proof
      assume "10 \<le> length ?pr"
      then have "?k + 1 = 11" by simp
      with ik show "productId (prioritizeProducts products ! 11) = js ''PROD-1488''" by metis
    qed
    show "let prioritized = ?pr; len = length prioritized; res = prioritizeProducts products
       in res = [lastWithId (js ''PROD-1487'') products] @ take (min 10 len) prioritized
                  @ [lastWithId (js ''PROD-1488'') products] @ drop (min 10 len) prioritized
          \<and> productId (res ! 0) = js ''PROD-1487''
          \<and> productId (res ! (min 10 len + 1)) = js ''PROD-1488''
          \<and> (10 \<le> len \<longrightarrow> productId (res ! 11) = js ''PROD-1488'')"
      unfolding Let_def using b i0 ik i11 by blast
  qed
  have part2: "js ''PROD-1487'' \<in> productId ` set products \<and> js ''PROD-1488'' \<notin> productId ` set products \<longrightarrow>
        prioritizeProducts products = lastWithId (js ''PROD-1487'') products # ?pr"
    by (simp add: prioritizeProducts_unfold l1 l2 Let_def)
  have part3: "js ''PROD-1487'' \<notin> productId ` set products \<and> js ''PROD-1488'' \<in> productId ` set products \<longrightarrow>
        prioritizeProducts products = lastWithId (js ''PROD-1488'') products # ?pr"
    by (simp add: prioritizeProducts_unfold l1 l2 Let_def)
  show ?thesis using part1 part2 part3 by blast
qed


theorem prioritizeProducts_pinned_witness:
  "js ''PROD-1487'' \<in> productId ` set pinnedCatalog
   \<and> js ''PROD-1488'' \<in> productId ` set pinnedCatalog
   \<and> 10 \<le> length (stablePartition_spec hasPriorityKeyword (notFeatured pinnedCatalog))
   \<and> productId (prioritizeProducts pinnedCatalog ! 0) = js ''PROD-1487''
   \<and> productId (prioritizeProducts pinnedCatalog ! 11) = js ''PROD-1488''
   \<and> map idNum (prioritizeProducts pinnedCatalog) = [22, 2, 4, 6, 8, 10, 1, 3, 5, 7, 9, 21]"
proof -
  have h1: "js ''PROD-1487'' \<in> productId ` set pinnedCatalog"
    by (simp add: builtin_defs pinnedCatalog_def mkProduct_def)
  have h2: "js ''PROD-1488'' \<in> productId ` set pinnedCatalog"
    by (simp add: builtin_defs pinnedCatalog_def mkProduct_def)
  have len: "10 \<le> length (stablePartition_spec hasPriorityKeyword (notFeatured pinnedCatalog))"
    by (simp add: builtin_defs prioritize_defs)
  have ev: "map idNum (prioritizeProducts pinnedCatalog) = [22, 2, 4, 6, 8, 10, 1, 3, 5, 7, 9, 21]"
    by (simp add: builtin_defs prioritize_defs)
  from prioritizeProducts_pinned[of pinnedCatalog] h1 h2 len
  have "productId (prioritizeProducts pinnedCatalog ! 0) = js ''PROD-1487''
      \<and> productId (prioritizeProducts pinnedCatalog ! 11) = js ''PROD-1488''"
    unfolding Let_def by blast
  with h1 h2 len ev show ?thesis by blast
qed

section \<open>The same-day flag\<close>

lemma findIndex_ge: "- 1 \<le> findIndex P xs"
  by (induction xs) (auto simp: Let_def)

lemma findIndex_none: "findIndex P xs < 0 \<longleftrightarrow> \<not> list_ex P xs"
  using findIndex_ge[of P] by (induction xs) (auto simp: Let_def)

lemma findIndex_first:
  "0 \<le> findIndex P xs \<Longrightarrow>
   nat (findIndex P xs) < length xs \<and> P (xs ! nat (findIndex P xs))
   \<and> \<not> list_ex P (take (nat (findIndex P xs)) xs)"
proof (induction xs)
  case Nil
  then show ?case by simp
next
  case (Cons x xs)
  show ?case
  proof (cases "P x")
    case True
    then show ?thesis by simp
  next
    case False
    with Cons.prems have nn: "0 \<le> findIndex P xs"
      by (auto simp: Let_def split: if_splits)
    then have eq: "findIndex P (x # xs) = findIndex P xs + 1"
      using False by (simp add: Let_def)
    have n: "nat (findIndex P xs + 1) = Suc (nat (findIndex P xs))" using nn by simp
    show ?thesis using Cons.IH[OF nn] False unfolding eq n by simp
  qed
qed

lemma first_index_unique:
  assumes "i < length xs" "P (xs ! i)" "\<not> list_ex P (take i xs)"
    and "j < length xs" "P (xs ! j)" "\<not> list_ex P (take j xs)"
  shows "i = j"
proof (rule ccontr)
  assume "i \<noteq> j"
  then consider "i < j" | "j < i" by linarith
  then show False
  proof cases
    case 1
    then have "xs ! i \<in> set (take j xs)" using assms(4) by (metis in_set_conv_nth length_take min.absorb2 less_imp_le nth_take)
    with assms(2,6) show False by (auto simp: list_ex_iff)
  next
    case 2
    then have "xs ! j \<in> set (take i xs)" using assms(1) by (metis in_set_conv_nth length_take min.absorb2 less_imp_le nth_take)
    with assms(5,3) show False by (auto simp: list_ex_iff)
  qed
qed

lemma true_not_empty: "toLowerCase [] \<noteq> js ''true''"
  by (simp add: toLowerCase_def js_def)

lemma sameDayOf_spec:
  "sameDayOf (findIndex isSameDayHeader header) cells = sameDay_spec header cells"
proof (cases "0 \<le> findIndex isSameDayHeader header")
  case False
  then have "\<not> list_ex isSameDayHeader header" using findIndex_none[of isSameDayHeader header] by simp
  then have "\<not> sameDay_spec header cells"
    by (auto simp: sameDay_spec_def list_ex_iff)
  with False show ?thesis by (simp add: sameDayOf_def)
next
  case True
  let ?i = "nat (findIndex isSameDayHeader header)"
  note f = findIndex_first[OF True]
  have code: "sameDayOf (findIndex isSameDayHeader header) cells
      = (?i < length cells \<and> toLowerCase (cells ! ?i) = js ''true'')"
    using True true_not_empty by (auto simp: sameDayOf_def elemAt_def orEmpty_def)
  have spec: "sameDay_spec header cells = (?i < length cells \<and> toLowerCase (cells ! ?i) = js ''true'')"
  proof
    assume "sameDay_spec header cells"
    then obtain i where i: "i < length header" "isSameDayHeader (header ! i)"
        "\<not> list_ex isSameDayHeader (take i header)" "i < length cells"
        "toLowerCase (cells ! i) = js ''true''"
      by (auto simp: sameDay_spec_def)
    have "i = ?i" using first_index_unique[OF i(1,2,3)] f by blast
    with i show "?i < length cells \<and> toLowerCase (cells ! ?i) = js ''true''" by simp
  next
    assume "?i < length cells \<and> toLowerCase (cells ! ?i) = js ''true''"
    with f show "sameDay_spec header cells" unfolding sameDay_spec_def by blast
  qed
  show ?thesis using code spec by simp
qed

lemma sameDayColumn_header:
  "sameDayColumn rows = findIndex isSameDayHeader (parseCSVRow (orEmpty (elemAt rows 0)))"
proof -
  have "(\<lambda>h. trim (toLowerCase h) = js ''sameday'') = isSameDayHeader"
    by (intro ext) (simp add: isSameDayHeader_def)
  then show ?thesis by (simp add: sameDayColumn_def)
qed

lemma rowProduct_app_sameDay:
  "rowProduct_app cat emo idx n row = Some p \<Longrightarrow>
   sameDay p = sameDayOf idx (map cleanField (parseCSVRow row))"
  by (auto simp: rowProduct_app_def Let_def split: if_splits)

lemma rowProduct_staff_sameDay:
  "rowProduct_staff idx row = Some q \<Longrightarrow>
   s_sameDay q = sameDayOf idx (map cleanField (parseCSVRow row))"
  by (auto simp: rowProduct_staff_def Let_def split: if_splits)

lemma buildProducts_app_rows:
  "p \<in> set (buildProducts_app cat emo idx n rows) \<Longrightarrow>
   \<exists>row \<in> set rows. \<exists>m. rowProduct_app cat emo idx m row = Some p"
proof (induction rows arbitrary: n)
  case Nil
  then show ?case by simp
next
  case (Cons r rs)
  then show ?case by (fastforce split: option.splits)
qed

lemma buildProducts_staff_rows:
  "q \<in> set (buildProducts_staff idx rows) \<Longrightarrow>
   \<exists>row \<in> set rows. rowProduct_staff idx row = Some q"
proof (induction rows)
  case Nil
  then show ?case by simp
next
  case (Cons r rs)
  then show ?case by (fastforce split: option.splits)
qed

text \<open>
  C9. In both parsers every product of a feed comes from a data row, and its sameDay flag
  is the one of the specification: true exactly when the header has a column whose
  trimmed, lower-cased text is \<open>sameday\<close> and the cell of the row in that column,
  lower-cased, is \<open>true\<close>. In particular the flag is false for every product when the
  header has no such column, whatever the other fields hold.
\<close>

theorem sameDay_only_from_column:
  "(let rows = splitRows [] [] False text;
        header = parseCSVRow (orEmpty (elemAt rows 0))
    in (\<forall>p \<in> set (parseCSV_app cat emo text).
          \<exists>row \<in> set (drop 1 rows). \<exists>n.
             rowProduct_app cat emo (sameDayColumn rows) n row = Some p
             \<and> sameDay p = sameDay_spec header (map cleanField (parseCSVRow row)))
     \<and> (\<forall>q \<in> set (parseCSV_staff text).
          \<exists>row \<in> set (drop 1 rows).
             rowProduct_staff (sameDayColumn rows) row = Some q
             \<and> s_sameDay q = sameDay_spec header (map cleanField (parseCSVRow row)))
     \<and> (\<not> list_ex isSameDayHeader header \<longrightarrow>
          (\<forall>p \<in> set (parseCSV_app cat emo text). \<not> sameDay p)
          \<and> (\<forall>q \<in> set (parseCSV_staff text). \<not> s_sameDay q)))"
proof -
  define rows where "rows = splitRows [] [] False text"
  define header where "header = parseCSVRow (orEmpty (elemAt rows 0))"
  have col: "sameDayColumn rows = findIndex isSameDayHeader header"
    by (simp add: sameDayColumn_header header_def)
  have app: "\<exists>row \<in> set (drop 1 rows). \<exists>n.
             rowProduct_app cat emo (sameDayColumn rows) n row = Some p
             \<and> sameDay p = sameDay_spec header (map cleanField (parseCSVRow row))"
    if "p \<in> set (parseCSV_app cat emo text)" for p
  proof -
    from that have "p \<in> set (buildProducts_app cat emo (sameDayColumn rows) 1 (drop 1 rows))"
      by (simp add: parseCSV_app_def rows_def Let_def)
    then obtain row m where r: "row \<in> set (drop 1 rows)"
        "rowProduct_app cat emo (sameDayColumn rows) m row = Some p"
      using buildProducts_app_rows by blast
    from rowProduct_app_sameDay[OF r(2)]
    have "sameDay p = sameDay_spec header (map cleanField (parseCSVRow row))"
      by (simp add: col sameDayOf_spec)
    with r show ?thesis by blast
  qed
  have staff: "\<exists>row \<in> set (drop 1 rows).
             rowProduct_staff (sameDayColumn rows) row = Some q
             \<and> s_sameDay q = sameDay_spec header (map cleanField (parseCSVRow row))"
    if "q \<in> set (parseCSV_staff text)" for q
  proof -
    from that have "q \<in> set (buildProducts_staff (sameDayColumn rows) (drop 1 rows))"
      by (simp add: parseCSV_staff_def rows_def Let_def)
    then obtain row where r: "row \<in> set (drop 1 rows)"
        "rowProduct_staff (sameDayColumn rows) row = Some q"
      using buildProducts_staff_rows by blast
    from rowProduct_staff_sameDay[OF r(2)]
    have "s_sameDay q = sameDay_spec header (map cleanField (parseCSVRow row))"
      by (simp add: col sameDayOf_spec)
    with r show ?thesis by blast
  qed
  have none: "\<not> sameDay_spec header cells" if "\<not> list_ex isSameDayHeader header" for cells
    using that by (auto simp: sameDay_spec_def list_ex_iff)
  have "(\<forall>p \<in> set (parseCSV_app cat emo text).
          \<exists>row \<in> set (drop 1 rows). \<exists>n.
             rowProduct_app cat emo (sameDayColumn rows) n row = Some p
             \<and> sameDay p = sameDay_spec header (map cleanField (parseCSVRow row)))
     \<and> (\<forall>q \<in> set (parseCSV_staff text).
          \<exists>row \<in> set (drop 1 rows).
             rowProduct_staff (sameDayColumn rows) row = Some q
             \<and> s_sameDay q = sameDay_spec header (map cleanField (parseCSVRow row)))
     \<and> (\<not> list_ex isSameDayHeader header \<longrightarrow>
          (\<forall>p \<in> set (parseCSV_app cat emo text). \<not> sameDay p)
          \<and> (\<forall>q \<in> set (parseCSV_staff text). \<not> s_sameDay q))"
    using app staff none by blast
  then show ?thesis unfolding Let_def rows_def[symmetric] header_def[symmetric] .
qed


theorem sameDay_only_from_column_witness:
  "\<not> list_ex isSameDayHeader (parseCSVRow (orEmpty (elemAt (splitRows [] [] False feedNoColumn) 0)))
   \<and> list_all (\<lambda>p. \<not> sameDay p) (parseCSV_app (\<lambda>n. []) (\<lambda>n. []) feedNoColumn)
   \<and> list_all (\<lambda>q. \<not> s_sameDay q) (parseCSV_staff feedNoColumn)
   \<and> map productId (parseCSV_app (\<lambda>n. []) (\<lambda>n. []) feedNoColumn) = [js ''P1'']
   \<and> map s_productId (parseCSV_staff feedNoColumn) = [js ''P1'']
   \<and> map sameDay (parseCSV_app (\<lambda>n. []) (\<lambda>n. []) feedWithColumn) = [True, False]
   \<and> map s_sameDay (parseCSV_staff feedWithColumn) = [True, False]"
proof -
  have h: "\<not> list_ex isSameDayHeader
      (parseCSVRow (orEmpty (elemAt (splitRows [] [] False feedNoColumn) 0)))"
    by (simp add: builtin_defs csv_defs isSameDayHeader_def feedNoColumn_def)
  have e1: "map productId (parseCSV_app (\<lambda>n. []) (\<lambda>n. []) feedNoColumn) = [js ''P1'']"
    by (simp add: builtin_defs parseInt_defs csv_defs variant_defs record_defs feedNoColumn_def Let_def)
  have e2: "map s_productId (parseCSV_staff feedNoColumn) = [js ''P1'']"
    by (simp add: builtin_defs parseInt_defs csv_defs variant_defs record_defs feedNoColumn_def Let_def)
  have e3: "map sameDay (parseCSV_app (\<lambda>n. []) (\<lambda>n. []) feedWithColumn) = [True, False]"
    by (simp add: builtin_defs parseInt_defs csv_defs variant_defs record_defs feedWithColumn_def Let_def)
  have e4: "map s_sameDay (parseCSV_staff feedWithColumn) = [True, False]"
    by (simp add: builtin_defs parseInt_defs csv_defs variant_defs record_defs feedWithColumn_def Let_def)
  from sameDay_only_from_column[of feedNoColumn "\<lambda>n. []" "\<lambda>n. []"] h
  have "(\<forall>p \<in> set (parseCSV_app (\<lambda>n. []) (\<lambda>n. []) feedNoColumn). \<not> sameDay p)
      \<and> (\<forall>q \<in> set (parseCSV_staff feedNoColumn). \<not> s_sameDay q)"
    unfolding Let_def by blast
  then have "list_all (\<lambda>p. \<not> sameDay p) (parseCSV_app (\<lambda>n. []) (\<lambda>n. []) feedNoColumn)
      \<and> list_all (\<lambda>q. \<not> s_sameDay q) (parseCSV_staff feedNoColumn)"
    by (simp add: list_all_iff)
  with h e1 e2 e3 e4 show ?thesis by blast
qed

section \<open>Which rows become products\<close>

text \<open>Where a match of the pattern's tail can come from: each piece succeeds on a suffix
  of its input.\<close>

lemma greedyWs_result:
  "greedyWs k s = Some r \<Longrightarrow> \<exists>w t. s = w @ t \<and> list_all isWhiteSpace w \<and> k t = Some r"
proof (induction s)
  case Nil
  then show ?case by simp
next
  case (Cons c s)
  show ?case
  proof (cases "isWhiteSpace c \<and> greedyWs k s = Some r")
    case True
    with Cons.IH obtain w t where "s = w @ t" "list_all isWhiteSpace w" "k t = Some r" by blast
    with True have "c # s = (c # w) @ t \<and> list_all isWhiteSpace (c # w) \<and> k t = Some r" by simp
    then show ?thesis by blast
  next
    case False
    with Cons.prems have "k (c # s) = Some r" by (auto split: if_splits option.splits)
    then have "c # s = [] @ (c # s) \<and> list_all isWhiteSpace [] \<and> k (c # s) = Some r" by simp
    then show ?thesis by blast
  qed
qed

lemma dashThen_result:
  assumes "dashThen grp s = Some g"
  shows "\<exists>w w' t. s = w @ EM_DASH # w' @ t \<and> list_all isWhiteSpace w
           \<and> list_all isWhiteSpace w' \<and> grp t = Some g"
proof -
  from assms have "greedyWs (afterDash grp) s = Some g" by (simp add: dashThen_def)
  from greedyWs_result[OF this] obtain w r where
    r: "s = w @ r" "list_all isWhiteSpace w" "afterDash grp r = Some g" by blast
  from r(3) obtain u where u: "r = EM_DASH # u" "greedyWs grp u = Some g"
    by (auto simp: afterDash_def split: list.splits if_splits)
  from greedyWs_result[OF u(2)] obtain w' t where
    t: "u = w' @ t" "list_all isWhiteSpace w'" "grp t = Some g" by blast
  from r u t have "s = w @ EM_DASH # w' @ t \<and> list_all isWhiteSpace w
           \<and> list_all isWhiteSpace w' \<and> grp t = Some g" by simp
  then show ?thesis by blast
qed

lemma lazyName_result:
  "lazyName rest acc s = Some (a, g) \<Longrightarrow> \<exists>pre t. s = pre @ t \<and> rest t = Some g"
proof (induction s arbitrary: acc)
  case Nil
  then show ?case by simp
next
  case (Cons c s)
  show ?case
  proof (cases "rest s")
    case (Some g')
    with Cons.prems have "g' = g" by (auto split: if_splits)
    with Some have "c # s = [c] @ s \<and> rest s = Some g" by simp
    then show ?thesis by blast
  next
    case None
    with Cons.prems have "lazyName rest (acc @ [c]) s = Some (a, g)" by (auto split: if_splits)
    with Cons.IH obtain pre t where "s = pre @ t" "rest t = Some g" by blast
    then have "c # s = (c # pre) @ t \<and> rest t = Some g" by simp
    then show ?thesis by blast
  qed
qed

lemma matchFrom_result:
  "matchFrom rest s = Some (a, g) \<Longrightarrow> \<exists>pre t. s = pre @ t \<and> rest t = Some g"
proof (induction s)
  case Nil
  then show ?case by simp
next
  case (Cons c cs)
  show ?case
  proof (cases "lazyName rest [] (c # cs)")
    case None
    with Cons.prems have "matchFrom rest cs = Some (a, g)" by simp
    with Cons.IH obtain pre t where "cs = pre @ t" "rest t = Some g" by blast
    then have "c # cs = (c # pre) @ t \<and> rest t = Some g" by simp
    then show ?thesis by blast
  next
    case (Some m)
    with Cons.prems have "lazyName rest [] (c # cs) = Some (a, g)" by simp
    then show ?thesis by (rule lazyName_result)
  qed
qed

lemma digitOrComma_not_ws: "isDigitOrComma c \<Longrightarrow> \<not> isWhiteSpace c"
  by (auto simp: isDigitOrComma_def isDigit_def COMMA_def isWhiteSpace_def split: if_splits)

lemma naira_not_ws: "\<not> isWhiteSpace NAIRA"
  by (simp add: NAIRA_def isWhiteSpace_def)

lemma trim_no_outer_ws:
  assumes "s \<noteq> []" "\<not> isWhiteSpace (hd s)" "\<not> isWhiteSpace (last s)"
  shows "trim s = s"
proof -
  have a: "dropWhile isWhiteSpace s = s" using assms(1,2) by (simp add: dropWhile_eq_self_iff)
  have b: "dropWhile isWhiteSpace (rev s) = rev s"
    using assms(1,3) by (simp add: dropWhile_eq_self_iff hd_rev)
  show ?thesis by (simp add: trim_def a b)
qed

lemma nairaAmount_shape:
  assumes "nairaAmount t = Some g"
  shows "\<exists>ds. g = NAIRA # ds \<and> ds \<noteq> [] \<and> (\<forall>c \<in> set ds. isDigitOrComma c)"
proof -
  from assms obtain u where u: "t = NAIRA # u" "takeWhile isDigitOrComma u \<noteq> []"
      "g = NAIRA # takeWhile isDigitOrComma u"
    by (auto simp: nairaAmount_def split: list.splits if_splits)
  have "\<forall>c \<in> set (takeWhile isDigitOrComma u). isDigitOrComma c"
    by (auto dest: set_takeWhileD)
  with u show ?thesis by blast
qed

lemma nairaAmount_trim:
  assumes "nairaAmount t = Some g"
  shows "trim g = g \<and> g \<noteq> []"
proof -
  from nairaAmount_shape[OF assms] obtain ds where
    ds: "g = NAIRA # ds" "ds \<noteq> []" "\<forall>c \<in> set ds. isDigitOrComma c" by blast
  have "last g = last ds" using ds by simp
  moreover have "last ds \<in> set ds" using ds(2) by simp
  ultimately have "\<not> isWhiteSpace (last g)" using ds(3) digitOrComma_not_ws by metis
  moreover have "\<not> isWhiteSpace (hd g)" using ds(1) naira_not_ws by simp
  ultimately show ?thesis using trim_no_outer_ws[of g] ds(1) by simp
qed

lemma variantOf_app_price: "variantOf_app part = Some v \<Longrightarrow> v_price v \<noteq> []"
proof -
  assume a: "variantOf_app part = Some v"
  then obtain m1 m2 where m: "matchFrom (dashThen nairaAmount) part = Some (m1, m2)"
      "v_price v = trim m2"
    by (auto simp: variantOf_app_def split: option.splits)
  from matchFrom_result[OF m(1)] obtain pre t where "dashThen nairaAmount t = Some m2" by blast
  from dashThen_result[OF this] obtain u where "nairaAmount u = Some m2" by blast
  from nairaAmount_trim[OF this] m(2) show ?thesis by simp
qed

lemma parseVariants_app_price: "v \<in> set (parseVariants_app s) \<Longrightarrow> v_price v \<noteq> []"
  by (auto simp: parseVariants_app_def List.map_filter_def variantOf_app_price split: if_splits)

lemma set_insertSorted: "set (insertSorted le x ys) = insert x (set ys)"
  by (induction ys) auto

lemma set_stableSort: "set (stableSort le xs) = set xs"
  by (induction xs) (simp_all add: stableSort_def set_insertSorted)

lemma hd_stableSort_in: "xs \<noteq> [] \<Longrightarrow> hd (stableSort le xs) \<in> set xs"
proof -
  assume "xs \<noteq> []"
  then have "set (stableSort le xs) \<noteq> {}" by (simp add: set_stableSort)
  then have "stableSort le xs \<noteq> []" by auto
  then have "hd (stableSort le xs) \<in> set (stableSort le xs)" by simp
  then show ?thesis by (simp add: set_stableSort)
qed

lemma cheapest_app_price:
  "parseVariants_app s \<noteq> [] \<Longrightarrow>
   v_price (hd (stableSort (\<lambda>a b. v_priceValue a - v_priceValue b \<le> 0) (parseVariants_app s))) \<noteq> []"
  using hd_stableSort_in parseVariants_app_price by blast

lemma first_cell: "2 \<le> length cells \<Longrightarrow> orEmpty (elemAt cells 0) = hd cells"
  by (cases cells) (simp_all add: orEmpty_def elemAt_def)

lemma rowProduct_app_accepts:
  "(\<exists>p. rowProduct_app cat emo idx n row = Some p) \<longleftrightarrow> cellsAccepted row"
proof -
  define cells where "cells = map cleanField (parseCSVRow row)"
  define vs where "vs = parseVariants_app (orEmpty (elemAt cells 4))"
  note ch = cheapest_app_price[of "orEmpty (elemAt cells 4)"]
  have len: "length (parseCSVRow row) = length cells" by (simp add: cells_def)
  show ?thesis
  proof (cases "2 \<le> length cells \<and> hd cells \<noteq> []")
    case False
    then show ?thesis
      using first_cell[of cells]
      by (auto simp: rowProduct_app_def cellsAccepted_def Let_def cells_def)
  next
    case True
    then have fc: "orEmpty (elemAt cells 0) \<noteq> []" using first_cell[of cells] by simp
    show ?thesis
      using True fc ch
      by (auto simp: rowProduct_app_def cellsAccepted_def Let_def len cells_def[symmetric])
  qed
qed

lemma rowProduct_app_productId:
  "rowProduct_app cat emo idx n row = Some p \<Longrightarrow>
   productId p = hd (map cleanField (parseCSVRow row))"
  using first_cell[of "map cleanField (parseCSVRow row)"]
  by (auto simp: rowProduct_app_def Let_def split: if_splits)

lemma buildProducts_app_accepted:
  "map productId (buildProducts_app cat emo idx n rows)
   = map (\<lambda>row. hd (map cleanField (parseCSVRow row))) (filter cellsAccepted rows)"
proof (induction rows arbitrary: n)
  case Nil
  then show ?case by simp
next
  case (Cons r rs)
  show ?case
  proof (cases "rowProduct_app cat emo idx n r")
    case None
    then have "\<not> cellsAccepted r" using rowProduct_app_accepts[of cat emo idx n r] by simp
    with None Cons.IH show ?thesis by simp
  next
    case (Some p)
    then have "cellsAccepted r" using rowProduct_app_accepts[of cat emo idx n r] by auto
    with Some Cons.IH rowProduct_app_productId[OF Some] show ?thesis by simp
  qed
qed

text \<open>
  The row loop of app.js pushes a product exactly for the rows whose cells pass the test:
  at least two cells, a first cell that is not empty, and a price cell that is not empty
  or at least one parsed variant (a parsed variant always carries a non-empty price text).
  The products of a feed are those of these rows, in order; no step of the loop can throw.
\<close>

lemma cells_accepted_iff:
  "((\<exists>p. rowProduct_app cat emo idx n row = Some p) \<longleftrightarrow> cellsAccepted row)
   \<and> map productId (parseCSV_app cat emo text)
     = map (\<lambda>row. hd (map cleanField (parseCSVRow row)))
         (filter cellsAccepted (drop 1 (splitRows [] [] False text)))"
  by (simp add: rowProduct_app_accepts parseCSV_app_def Let_def buildProducts_app_accepted)

lemma cells_accepted_examples:
  "cellsAccepted rowPlain
   \<and> (\<exists>p. rowProduct_app (\<lambda>n. []) (\<lambda>n. []) (- 1) 1 rowPlain = Some p)
   \<and> \<not> cellsAccepted rowNoId
   \<and> rowProduct_app (\<lambda>n. []) (\<lambda>n. []) (- 1) 1 rowNoId = None
   \<and> \<not> cellsAccepted rowNoPrice
   \<and> rowProduct_app (\<lambda>n. []) (\<lambda>n. []) (- 1) 1 rowNoPrice = None
   \<and> cellsAccepted rowVariantsOnly
   \<and> map (\<lambda>p. (idNum p, productId p, price p, priceValue p))
        (parseCSV_app (\<lambda>n. []) (\<lambda>n. []) feedFourRows)
      = [(1, js ''P1'', js ''500'', 500), (2, js ''P4'', NAIRA # js ''1,000'', 1000)]"
proof -
  have a1: "cellsAccepted rowPlain"
    by (simp add: builtin_defs parseInt_defs csv_defs variant_defs row_defs Let_def)
  have a2: "\<not> cellsAccepted rowNoId"
    by (simp add: builtin_defs parseInt_defs csv_defs variant_defs row_defs Let_def)
  have a3: "\<not> cellsAccepted rowNoPrice"
    by (simp add: builtin_defs parseInt_defs csv_defs variant_defs row_defs Let_def)
  have a4: "cellsAccepted rowVariantsOnly"
    by (simp add: builtin_defs parseInt_defs csv_defs variant_defs row_defs Let_def)
  have ev: "map (\<lambda>p. (idNum p, productId p, price p, priceValue p))
        (parseCSV_app (\<lambda>n. []) (\<lambda>n. []) feedFourRows)
      = [(1, js ''P1'', js ''500'', 500), (2, js ''P4'', NAIRA # js ''1,000'', 1000)]"
    by (simp add: builtin_defs parseInt_defs csv_defs variant_defs row_defs record_defs Let_def)
  have b1: "\<exists>p. rowProduct_app (\<lambda>n. []) (\<lambda>n. []) (- 1) 1 rowPlain = Some p"
    using cells_accepted_iff[of "\<lambda>n. []" "\<lambda>n. []" "- 1" 1 rowPlain] a1 by blast
  have b2: "rowProduct_app (\<lambda>n. []) (\<lambda>n. []) (- 1) 1 rowNoId = None"
    using cells_accepted_iff[of "\<lambda>n. []" "\<lambda>n. []" "- 1" 1 rowNoId] a2
    by (cases "rowProduct_app (\<lambda>n. []) (\<lambda>n. []) (- 1) 1 rowNoId") auto
  have b3: "rowProduct_app (\<lambda>n. []) (\<lambda>n. []) (- 1) 1 rowNoPrice = None"
    using cells_accepted_iff[of "\<lambda>n. []" "\<lambda>n. []" "- 1" 1 rowNoPrice] a3
    by (cases "rowProduct_app (\<lambda>n. []) (\<lambda>n. []) (- 1) 1 rowNoPrice") auto
  from a1 a2 a3 a4 ev b1 b2 b3 show ?thesis by blast
qed

text \<open>
  C7. A row becomes a product if and only if it has at least two fields, its first field
  is not empty and a price can be resolved, from its own price field or from a parsed
  variant. The loop tests the cells that the field parser returns, and the field parser
  reads an empty quoted field as one quote character. The row \<open>"",Rose,red,500\<close>,
  whose first field is empty, becomes a product with the identifier \<open>"\<close>; the row
  \<open>"P3","Mug","plain","",""\<close>, whose price field is empty and which has no variant,
  becomes a product with the price \<open>"\<close> and the price value 0. Both rows were to be
  dropped.
\<close>

theorem empty_quoted_cells_accepted:
  "map cleanField (parseCSVRow ([DQUOTE, DQUOTE] @ js '',Rose,red,500''))
     = [[DQUOTE], js ''Rose'', js ''red'', js ''500'']
   \<and> drop 3 (map cleanField (parseCSVRow
        ([DQUOTE] @ js ''P3'' @ [DQUOTE, COMMA, DQUOTE] @ js ''Mug'' @ [DQUOTE, COMMA, DQUOTE]
         @ js ''plain'' @ [DQUOTE, COMMA, DQUOTE, DQUOTE, COMMA, DQUOTE, DQUOTE])))
     = [[DQUOTE], [DQUOTE]]
   \<and> map (\<lambda>p. (productId p, name p, price p, priceValue p, variants p))
        (parseCSV_app (\<lambda>n. []) (\<lambda>n. []) feedEmptyQuoted)
     = [([DQUOTE], js ''Rose'', js ''500'', 500, []), (js ''P3'', js ''Mug'', [DQUOTE], 0, [])]"
  by (simp add: builtin_defs parseInt_defs csv_defs variant_defs record_defs feedEmptyQuoted_def
      Let_def)

section \<open>The two variant parsers\<close>

lemma em_dash_not_ws: "\<not> isWhiteSpace EM_DASH"
  by (simp add: EM_DASH_def isWhiteSpace_def)

lemma lt_is_ws: "isLineTerminator c \<Longrightarrow> isWhiteSpace c"
  by (auto simp: isLineTerminator_def isWhiteSpace_def)

text \<open>A continuation that fails on input that starts with white space: the greedy
  \<open>\s*\<close> in front of it skips the white space.\<close>

lemma greedyWs_skip:
  assumes "\<And>c t. isWhiteSpace c \<Longrightarrow> k (c # t) = None" "list_all isWhiteSpace w"
  shows "greedyWs k (w @ s) = greedyWs k s"
  using assms(2)
proof (induction w)
  case Nil
  then show ?case by simp
next
  case (Cons c w)
  then show ?case using assms(1)[of c "w @ s"] by (simp split: option.splits)
qed

text \<open>Greedy: when the continuation succeeds after the white space, that is the match.\<close>

lemma greedyWs_prefers_more:
  assumes "greedyWs k s = Some r" "list_all isWhiteSpace w"
  shows "greedyWs k (w @ s) = Some r"
  using assms(2)
proof (induction w)
  case Nil
  then show ?case using assms(1) by simp
next
  case (Cons c w)
  then show ?case by simp
qed

lemma greedyWs_no_ws: "s = [] \<or> \<not> isWhiteSpace (hd s) \<Longrightarrow> greedyWs k s = k s"
  by (cases s) auto

lemma dashThen_afterDash: "dashThen grp s = greedyWs (afterDash grp) s"
  by (simp add: dashThen_def)

lemma afterDash_ws: "isWhiteSpace c \<Longrightarrow> afterDash grp (c # t) = None"
  using em_dash_not_ws by (auto simp: afterDash_def)

text \<open>Inside the name: what follows is not yet white space and a dash.\<close>

lemma dashThen_inside_name:
  assumes "u \<noteq> []" "\<not> isWhiteSpace (last u)" "EM_DASH \<notin> set u"
  shows "dashThen grp (u @ rest) = None"
  using assms
proof (induction u)
  case Nil
  then show ?case by simp
next
  case (Cons c u)
  show ?case
  proof (cases "isWhiteSpace c")
    case False
    then have "greedyWs (afterDash grp) ((c # u) @ rest) = afterDash grp (c # u @ rest)"
      by simp
    also have "\<dots> = None" using Cons.prems(3) by (simp add: afterDash_def)
    finally show ?thesis by (simp add: dashThen_afterDash)
  next
    case True
    with Cons.prems(2) have ne: "u \<noteq> []" by auto
    then have "dashThen grp (u @ rest) = None"
      using Cons.IH Cons.prems by simp
    then show ?thesis
      using True afterDash_ws[OF True, of grp "u @ rest"] by (simp add: dashThen_afterDash)
  qed
qed

text \<open>At the end of the name: white space, the dash, white space, the price group.\<close>

lemma dashThen_at_dash_naira:
  assumes "list_all isWhiteSpace ws1" "list_all isWhiteSpace ws2" "pt = [] \<or> \<not> isWhiteSpace (hd pt)"
  shows "dashThen nairaAmount (ws1 @ [EM_DASH] @ ws2 @ pt) = nairaAmount pt"
proof -
  have n: "\<And>c t. isWhiteSpace c \<Longrightarrow> nairaAmount (c # t) = None"
    using naira_not_ws by (auto simp: nairaAmount_def)
  have "dashThen nairaAmount (ws1 @ [EM_DASH] @ ws2 @ pt)
      = greedyWs (afterDash nairaAmount) (EM_DASH # ws2 @ pt)"
    using greedyWs_skip[of "afterDash nairaAmount" ws1 "EM_DASH # ws2 @ pt"] afterDash_ws assms(1)
    by (simp add: dashThen_afterDash)
  also have "\<dots> = greedyWs nairaAmount (ws2 @ pt)"
    using em_dash_not_ws by (simp add: afterDash_def)
  also have "\<dots> = greedyWs nairaAmount pt"
    using greedyWs_skip[of nairaAmount ws2 pt] n assms(2) by simp
  also have "\<dots> = nairaAmount pt" using assms(3) by (rule greedyWs_no_ws)
  finally show ?thesis .
qed

lemma dotPlus_start:
  assumes "pt \<noteq> []" "\<not> isWhiteSpace (hd pt)"
  shows "dotPlus pt = Some (takeWhile (\<lambda>c. \<not> isLineTerminator c) pt)"
proof -
  from assms obtain c t where p: "pt = c # t" "\<not> isLineTerminator c"
    using lt_is_ws by (cases pt) auto
  then show ?thesis by (simp add: dotPlus_def)
qed

lemma dashThen_at_dash_dot:
  assumes "list_all isWhiteSpace ws1" "list_all isWhiteSpace ws2" "pt \<noteq> []" "\<not> isWhiteSpace (hd pt)"
  shows "dashThen dotPlus (ws1 @ [EM_DASH] @ ws2 @ pt)
     = Some (takeWhile (\<lambda>c. \<not> isLineTerminator c) pt)"
proof -
  let ?g = "takeWhile (\<lambda>c. \<not> isLineTerminator c) pt"
  have "greedyWs dotPlus pt = Some ?g"
    using greedyWs_no_ws[of pt dotPlus] dotPlus_start[OF assms(3,4)] assms(4) by simp
  then have "greedyWs dotPlus (ws2 @ pt) = Some ?g"
    using assms(2) by (rule greedyWs_prefers_more)
  then have "afterDash dotPlus (EM_DASH # ws2 @ pt) = Some ?g" by (simp add: afterDash_def)
  then have "greedyWs (afterDash dotPlus) (EM_DASH # ws2 @ pt) = Some ?g"
    using em_dash_not_ws by simp
  then have "greedyWs (afterDash dotPlus) (ws1 @ EM_DASH # ws2 @ pt) = Some ?g"
    using assms(1) by (rule greedyWs_prefers_more)
  then show ?thesis by (simp add: dashThen_afterDash)
qed

text \<open>The lazy group stops at the end of the name when the rest matches there.\<close>

lemma lazyName_whole_name:
  assumes "nm \<noteq> []" "\<not> isWhiteSpace (last nm)" "EM_DASH \<notin> set nm"
    "\<forall>c \<in> set nm. \<not> isLineTerminator c" "dashThen grp tail = Some g"
  shows "lazyName (dashThen grp) acc (nm @ tail) = Some (acc @ nm, g)"
  using assms(1-4)
proof (induction nm arbitrary: acc)
  case Nil
  then show ?case by simp
next
  case (Cons c u)
  show ?case
  proof (cases "u = []")
    case True
    then show ?thesis using Cons.prems assms(5) by simp
  next
    case False
    then have "dashThen grp (u @ tail) = None"
      using dashThen_inside_name[of u grp tail] Cons.prems by simp
    moreover have "lazyName (dashThen grp) (acc @ [c]) (u @ tail) = Some ((acc @ [c]) @ u, g)"
      using Cons.IH[of "acc @ [c]"] False Cons.prems by simp
    ultimately show ?thesis using Cons.prems by simp
  qed
qed

lemma matchFrom_whole_name:
  assumes "nm \<noteq> []" "\<not> isWhiteSpace (last nm)" "EM_DASH \<notin> set nm"
    "\<forall>c \<in> set nm. \<not> isLineTerminator c" "dashThen grp tail = Some g"
  shows "matchFrom (dashThen grp) (nm @ tail) = Some (nm, g)"
proof -
  from assms(1) obtain c u where nm: "nm = c # u" by (cases nm) auto
  have "lazyName (dashThen grp) [] (nm @ tail) = Some ([] @ nm, g)"
    using assms by (rule lazyName_whole_name)
  then show ?thesis by (simp add: nm)
qed


lemma splitOn_no_sep: "sep \<notin> set s \<Longrightarrow> splitOn sep cur s = [cur @ s]"
  by (induction s arbitrary: cur) auto

lemma dropWhile_keeps: "c \<in> set s \<Longrightarrow> \<not> P c \<Longrightarrow> c \<in> set (dropWhile P s)"
  by (induction s) auto

lemma trim_nonempty:
  assumes "c \<in> set s" "\<not> isWhiteSpace c"
  shows "trim s \<noteq> []"
proof -
  have "c \<in> set (rev (dropWhile isWhiteSpace s))"
    using dropWhile_keeps[of c s isWhiteSpace] assms by simp
  then have "c \<in> set (dropWhile isWhiteSpace (rev (dropWhile isWhiteSpace s)))"
    using dropWhile_keeps[of c "rev (dropWhile isWhiteSpace s)" isWhiteSpace] assms(2) by simp
  then have "dropWhile isWhiteSpace (rev (dropWhile isWhiteSpace s)) \<noteq> []"
    by (metis empty_iff empty_set)
  then show ?thesis unfolding trim_def by (metis rev_is_Nil_conv)
qed

lemma parseVariants_single:
  assumes "PIPE \<notin> set entry" "EM_DASH \<in> set entry"
  shows "parseVariants_app entry = (case variantOf_app entry of None \<Rightarrow> [] | Some v \<Rightarrow> [v])"
    and "parseVariants_staff entry = (case variantOf_staff entry of None \<Rightarrow> [] | Some v \<Rightarrow> [v])"
proof -
  have t: "trim entry \<noteq> []" using trim_nonempty[OF assms(2) em_dash_not_ws] .
  have sp: "splitOn PIPE [] entry = [entry]" using splitOn_no_sep[OF assms(1), of "[]"] by simp
  show "parseVariants_app entry = (case variantOf_app entry of None \<Rightarrow> [] | Some v \<Rightarrow> [v])"
    by (simp add: parseVariants_app_def t sp List.map_filter_simps split: option.splits)
  show "parseVariants_staff entry = (case variantOf_staff entry of None \<Rightarrow> [] | Some v \<Rightarrow> [v])"
    by (simp add: parseVariants_staff_def t sp List.map_filter_simps split: option.splits)
qed

lemma ws_prefix_unique:
  assumes "list_all isWhiteSpace w" "list_all isWhiteSpace w'"
    "t \<noteq> []" "\<not> isWhiteSpace (hd t)" "t' \<noteq> []" "\<not> isWhiteSpace (hd t')" "w @ t = w' @ t'"
  shows "t = t'"
proof -
  have a: "dropWhile isWhiteSpace (w @ t) = t"
    using assms(1,3,4) by (cases t) (simp_all add: list_all_iff dropWhile_append2)
  have b: "dropWhile isWhiteSpace (w' @ t') = t'"
    using assms(2,5,6) by (cases t') (simp_all add: list_all_iff dropWhile_append2)
  from a b assms(7) show ?thesis by simp
qed

lemma nairaAmount_starts: "(\<exists>g. nairaAmount pt = Some g) \<longleftrightarrow> startsWithNairaAmount pt"
proof (cases pt)
  case Nil
  then show ?thesis by (simp add: nairaAmount_def startsWithNairaAmount_def)
next
  case (Cons c t)
  then show ?thesis
    by (cases t) (auto simp: nairaAmount_def startsWithNairaAmount_def)
qed

lemma nairaAmount_hd: "nairaAmount t = Some g \<Longrightarrow> t \<noteq> [] \<and> \<not> isWhiteSpace (hd t)"
  using naira_not_ws by (auto simp: nairaAmount_def split: list.splits if_splits)

text \<open>An entry with one dash: the app pattern can only match with its second group at the
  price text.\<close>

lemma app_match_needs_naira:
  assumes "EM_DASH \<notin> set nm" "list_all isWhiteSpace ws1" "list_all isWhiteSpace ws2"
    "EM_DASH \<notin> set pt" "pt \<noteq> []" "\<not> isWhiteSpace (hd pt)"
    "matchFrom (dashThen nairaAmount) (nm @ ws1 @ [EM_DASH] @ ws2 @ pt) = Some (a, g)"
  shows "nairaAmount pt = Some g"
proof -
  from matchFrom_result[OF assms(7)] obtain pre t where
    t: "nm @ ws1 @ [EM_DASH] @ ws2 @ pt = pre @ t" "dashThen nairaAmount t = Some g" by blast
  from dashThen_result[OF t(2)] obtain w w' u where
    u: "t = w @ EM_DASH # w' @ u" "list_all isWhiteSpace w" "list_all isWhiteSpace w'"
       "nairaAmount u = Some g" by blast
  have d1: "EM_DASH \<notin> set (nm @ ws1)"
    using assms(1,2) em_dash_not_ws by (auto simp: list_all_iff)
  have d2: "EM_DASH \<notin> set (ws2 @ pt)"
    using assms(3,4) em_dash_not_ws by (auto simp: list_all_iff)
  have "(nm @ ws1) @ EM_DASH # (ws2 @ pt) = (pre @ w) @ EM_DASH # (w' @ u)"
    using t(1) u(1) by simp
  then have "ws2 @ pt = w' @ u"
    using d1 d2 append_Cons_eq_iff[of EM_DASH "nm @ ws1" "ws2 @ pt" "pre @ w" "w' @ u"] by blast
  then have "pt = u"
    using ws_prefix_unique[OF assms(3) u(3) assms(5,6)] nairaAmount_hd[OF u(4)] by blast
  with u(4) show ?thesis by simp
qed

lemma variantOf_staff_entry:
  assumes "entryShape nm ws1 ws2 pt"
  shows "variantOf_staff (nm @ ws1 @ [EM_DASH] @ ws2 @ pt)
     = Some \<lparr>v_name = trim nm,
             v_price = trim (takeWhile (\<lambda>c. \<not> isLineTerminator c) pt),
             v_priceValue = parsePriceValue_staff (takeWhile (\<lambda>c. \<not> isLineTerminator c) pt)\<rparr>"
proof -
  from assms have s: "nm \<noteq> []" "\<not> isWhiteSpace (last nm)" "EM_DASH \<notin> set nm"
      "\<forall>c \<in> set nm. \<not> isLineTerminator c" "list_all isWhiteSpace ws1" "list_all isWhiteSpace ws2"
      "pt \<noteq> []" "\<not> isWhiteSpace (hd pt)"
    by (auto simp: entryShape_def list_all_iff)
  have "dashThen dotPlus (ws1 @ [EM_DASH] @ ws2 @ pt)
      = Some (takeWhile (\<lambda>c. \<not> isLineTerminator c) pt)"
    using s(5-8) by (rule dashThen_at_dash_dot)
  then have "matchFrom (dashThen dotPlus) (nm @ ws1 @ [EM_DASH] @ ws2 @ pt)
      = Some (nm, takeWhile (\<lambda>c. \<not> isLineTerminator c) pt)"
    using matchFrom_whole_name[OF s(1-4)] by blast
  then show ?thesis by (simp add: variantOf_staff_def)
qed

lemma variantOf_app_entry:
  assumes "entryShape nm ws1 ws2 pt"
  shows "variantOf_app (nm @ ws1 @ [EM_DASH] @ ws2 @ pt)
     = (case nairaAmount pt of None \<Rightarrow> None
        | Some g \<Rightarrow> Some \<lparr>v_name = trim nm, v_price = trim g, v_priceValue = parsePriceValue_app g\<rparr>)"
proof -
  from assms have s: "nm \<noteq> []" "\<not> isWhiteSpace (last nm)" "EM_DASH \<notin> set nm"
      "\<forall>c \<in> set nm. \<not> isLineTerminator c" "list_all isWhiteSpace ws1" "list_all isWhiteSpace ws2"
      "pt \<noteq> []" "\<not> isWhiteSpace (hd pt)" "EM_DASH \<notin> set pt"
    by (auto simp: entryShape_def list_all_iff)
  have tail: "dashThen nairaAmount (ws1 @ [EM_DASH] @ ws2 @ pt) = nairaAmount pt"
    using dashThen_at_dash_naira[OF s(5,6), of pt] s(8) by simp
  show ?thesis
  proof (cases "nairaAmount pt")
    case (Some g)
    with tail have "matchFrom (dashThen nairaAmount) (nm @ ws1 @ [EM_DASH] @ ws2 @ pt) = Some (nm, g)"
      using matchFrom_whole_name[OF s(1-4)] by simp
    with Some show ?thesis by (simp add: variantOf_app_def)
  next
    case None
    have "matchFrom (dashThen nairaAmount) (nm @ ws1 @ [EM_DASH] @ ws2 @ pt) = None"
    proof (cases "matchFrom (dashThen nairaAmount) (nm @ ws1 @ [EM_DASH] @ ws2 @ pt)")
      case None
      then show ?thesis .
    next
      case (Some m)
      obtain a g where "m = (a, g)" by (cases m)
      with Some have "nairaAmount pt = Some g"
        using app_match_needs_naira[OF s(3,5,6,9,7,8)] by blast
      with None show ?thesis by simp
    qed
    with None show ?thesis by (simp add: variantOf_app_def)
  qed
qed


lemma digits_no_hex: "\<forall>c \<in> set ds. isDigit c \<Longrightarrow> \<not> hasHexPrefix ds"
proof (cases ds)
  case Nil
  then show ?thesis by (simp add: hasHexPrefix_def)
next
  case (Cons a t)
  assume d: "\<forall>c \<in> set ds. isDigit c"
  show ?thesis
  proof (cases t)
    case Nil
    with Cons show ?thesis by (simp add: hasHexPrefix_def)
  next
    case (Cons b u)
    with \<open>ds = a # t\<close> d have "isDigit b" by simp
    then have "b \<noteq> 120 \<and> b \<noteq> 88" by (auto simp: isDigit_def)
    with Cons \<open>ds = a # t\<close> show ?thesis by (simp add: hasHexPrefix_def)
  qed
qed

lemma parseInt_digits_no_radix:
  assumes "\<forall>c \<in> set ds. isDigit c"
  shows "parseInt ds 0 = parseInt ds 10"
proof (cases ds)
  case Nil
  then show ?thesis by (simp add: parseInt_def hasHexPrefix_def)
next
  case (Cons c cs)
  have d: "isDigit c" using assms Cons by simp
  have ws: "dropWhile isWhiteSpace ds = ds" using Cons d digit_not_ws by simp
  have sg: "c \<noteq> 45" "c \<noteq> 43" using d by (auto simp: isDigit_def)
  have S1: "(case ds of c # t \<Rightarrow> if c = 43 \<or> c = 45 then t else ds | [] \<Rightarrow> ds) = ds"
    using Cons sg by simp
  have hex: "hasHexPrefix ds = False" using digits_no_hex[OF assms] by simp
  show ?thesis
    unfolding parseInt_def Let_def ws S1 hex by simp
qed

lemma nairaText_chars:
  assumes "nairaText pt"
  shows "\<exists>ds. pt = NAIRA # ds \<and> ds \<noteq> [] \<and> (\<forall>c \<in> set ds. isDigitOrComma c)"
  using assms by (cases pt) (auto simp: nairaText_def list_all_iff)

lemma digitOrComma_not_lt: "isDigitOrComma c \<Longrightarrow> \<not> isLineTerminator c"
  using digitOrComma_not_ws lt_is_ws by blast

lemma nairaText_groups:
  assumes "nairaText pt"
  shows "nairaAmount pt = Some pt" and "takeWhile (\<lambda>c. \<not> isLineTerminator c) pt = pt"
proof -
  from nairaText_chars[OF assms] obtain ds where
    ds: "pt = NAIRA # ds" "ds \<noteq> []" "\<forall>c \<in> set ds. isDigitOrComma c" by blast
  have tw: "takeWhile isDigitOrComma ds = ds" using ds(3) by (simp add: takeWhile_eq_all_conv)
  show "nairaAmount pt = Some pt" using ds(1,2) by (simp add: nairaAmount_def tw)
  have "\<forall>c \<in> set pt. \<not> isLineTerminator c"
    using ds(1,3) digitOrComma_not_lt naira_not_ws lt_is_ws by auto
  then show "takeWhile (\<lambda>c. \<not> isLineTerminator c) pt = pt" by (simp add: takeWhile_eq_all_conv)
qed

lemma nairaText_value:
  assumes "nairaText pt"
  shows "parsePriceValue_app pt = parsePriceValue_staff pt"
proof -
  from nairaText_chars[OF assms] obtain ds where
    ds: "pt = NAIRA # ds" "ds \<noteq> []" "\<forall>c \<in> set ds. isDigitOrComma c" by blast
  have "c \<noteq> NAIRA \<and> c \<noteq> COMMA \<longleftrightarrow> isDigit c" if "c \<in> set pt" for c
    using that ds(1,3) by (auto simp: isDigitOrComma_def isDigit_def NAIRA_def COMMA_def split: if_splits)
  then have f: "filter (\<lambda>c. c \<noteq> NAIRA \<and> c \<noteq> COMMA) pt = filter isDigit pt"
    by (intro filter_cong) auto
  have "parseInt (filter isDigit pt) 0 = parseInt (filter isDigit pt) 10"
    by (rule parseInt_digits_no_radix) simp
  then show ?thesis by (simp add: parsePriceValue_app_def parsePriceValue_staff_def f)
qed

lemma large50:
  "parseVariants_staff entryLarge50 = [\<lparr>v_name = js ''Large'', v_price = js ''$50'', v_priceValue = 50\<rparr>]
   \<and> parseVariants_app entryLarge50 = []"
  by (simp add: builtin_defs parseInt_defs variant_defs entryLarge50_def)

text \<open>A name that itself holds an em dash is cut at different dashes by the two patterns.\<close>

lemma two_dashes_example:
  "parseVariants_app (js ''A '' @ [EM_DASH] @ js '' B '' @ [EM_DASH, SPACE, NAIRA] @ js ''5'')
     = [\<lparr>v_name = js ''A '' @ [EM_DASH] @ js '' B'', v_price = NAIRA # js ''5'', v_priceValue = 5\<rparr>]
   \<and> parseVariants_staff (js ''A '' @ [EM_DASH] @ js '' B '' @ [EM_DASH, SPACE, NAIRA] @ js ''5'')
     = [\<lparr>v_name = js ''A'', v_price = js ''B '' @ [EM_DASH, SPACE, NAIRA] @ js ''5'', v_priceValue = 5\<rparr>]"
  by (simp add: builtin_defs parseInt_defs variant_defs)

text \<open>
  C10. The two parseVariants are not the same function. On an entry
  \<open>name D price-text\<close> the staff parser keeps the entry whatever the price text is,
  with the price text up to the first line terminator; the app parser keeps it exactly
  when the price text starts with the naira sign followed by a digit or a comma; and when
  the price text is the naira sign followed by digits and commas only, both produce the
  same variant: the trimmed name, the price text, and its digits read in base 10.
\<close>

theorem parseVariants_app_staff_differ:
  assumes "entryShape nm ws1 ws2 pt"
  shows "parseVariants_app \<noteq> parseVariants_staff
     \<and> parseVariants_staff (nm @ ws1 @ [EM_DASH] @ ws2 @ pt)
         = [\<lparr>v_name = trim nm,
              v_price = trim (takeWhile (\<lambda>c. \<not> isLineTerminator c) pt),
              v_priceValue = parsePriceValue_staff (takeWhile (\<lambda>c. \<not> isLineTerminator c) pt)\<rparr>]
     \<and> (parseVariants_app (nm @ ws1 @ [EM_DASH] @ ws2 @ pt) \<noteq> [] \<longleftrightarrow> startsWithNairaAmount pt)
     \<and> (nairaText pt \<longrightarrow>
          parseVariants_app (nm @ ws1 @ [EM_DASH] @ ws2 @ pt)
            = parseVariants_staff (nm @ ws1 @ [EM_DASH] @ ws2 @ pt)
          \<and> parseVariants_app (nm @ ws1 @ [EM_DASH] @ ws2 @ pt)
            = [\<lparr>v_name = trim nm, v_price = pt, v_priceValue = parsePrice_spec pt\<rparr>])"
proof -
  let ?e = "nm @ ws1 @ [EM_DASH] @ ws2 @ pt"
  let ?g = "takeWhile (\<lambda>c. \<not> isLineTerminator c) pt"
  have pipe: "PIPE \<notin> set ?e"
    using assms by (auto simp: entryShape_def list_all_iff PIPE_def EM_DASH_def isWhiteSpace_def)
  have dash: "EM_DASH \<in> set ?e" by simp
  note single = parseVariants_single[OF pipe dash]
  have diff: "parseVariants_app \<noteq> parseVariants_staff"
  proof
    assume "parseVariants_app = parseVariants_staff"
    then have "parseVariants_app entryLarge50 = parseVariants_staff entryLarge50" by simp
    moreover have "parseVariants_app entryLarge50 = []" using large50 by blast
    moreover have "parseVariants_staff entryLarge50 \<noteq> []" using large50 by auto
    ultimately show False by metis
  qed
  have staff: "parseVariants_staff ?e
      = [\<lparr>v_name = trim nm, v_price = trim ?g, v_priceValue = parsePriceValue_staff ?g\<rparr>]"
    using single(2) variantOf_staff_entry[OF assms] by simp
  have app: "parseVariants_app ?e
      = (case nairaAmount pt of None \<Rightarrow> []
         | Some g \<Rightarrow> [\<lparr>v_name = trim nm, v_price = trim g, v_priceValue = parsePriceValue_app g\<rparr>])"
    using single(1) variantOf_app_entry[OF assms] by (simp split: option.splits)
  have acc: "parseVariants_app ?e \<noteq> [] \<longleftrightarrow> startsWithNairaAmount pt"
  proof (cases "nairaAmount pt")
    case None
    then have "parseVariants_app ?e = []" by (simp only: app option.case)
    moreover have "\<not> startsWithNairaAmount pt" using nairaAmount_starts[of pt] None by simp
    ultimately show ?thesis by blast
  next
    case (Some g)
    then have "parseVariants_app ?e
        = [\<lparr>v_name = trim nm, v_price = trim g, v_priceValue = parsePriceValue_app g\<rparr>]"
      by (simp only: app option.case)
    then have "parseVariants_app ?e \<noteq> []" by (metis list.distinct(1))
    moreover have "startsWithNairaAmount pt" using nairaAmount_starts[of pt] Some by blast
    ultimately show ?thesis by blast
  qed
  have same: "parseVariants_app ?e = parseVariants_staff ?e
      \<and> parseVariants_app ?e = [\<lparr>v_name = trim nm, v_price = pt, v_priceValue = parsePrice_spec pt\<rparr>]"
    if n: "nairaText pt"
  proof -
    note g = nairaText_groups[OF n]
    have tr: "trim pt = pt" using nairaAmount_trim[OF g(1)] by simp
    have v: "parsePriceValue_app pt = parsePrice_spec pt"
      using nairaText_value[OF n] by (simp add: parsePriceValue_staff_spec)
    have a: "parseVariants_app ?e
        = [\<lparr>v_name = trim nm, v_price = pt, v_priceValue = parsePrice_spec pt\<rparr>]"
      by (simp only: app g(1) option.case tr v)
    have b: "parseVariants_staff ?e
        = [\<lparr>v_name = trim nm, v_price = pt, v_priceValue = parsePrice_spec pt\<rparr>]"
      by (simp only: staff g(2) tr parsePriceValue_staff_spec)
    from a b show ?thesis by metis
  qed
  from diff staff acc same show ?thesis by blast
qed

theorem parseVariants_app_staff_differ_witness:
  "entryShape (js ''Large'') (js '' '') (js '' '') (js ''$50'')
   \<and> parseVariants_staff (js ''Large'' @ js '' '' @ [EM_DASH] @ js '' '' @ js ''$50'')
       = [\<lparr>v_name = js ''Large'', v_price = js ''$50'', v_priceValue = 50\<rparr>]
   \<and> parseVariants_app (js ''Large'' @ js '' '' @ [EM_DASH] @ js '' '' @ js ''$50'') = []
   \<and> entryShape (js ''Large'') (js '' '') (js '' '') (NAIRA # js ''5,000'')
   \<and> nairaText (NAIRA # js ''5,000'')
   \<and> parseVariants_app (js ''Large'' @ js '' '' @ [EM_DASH] @ js '' '' @ NAIRA # js ''5,000'')
       = parseVariants_staff (js ''Large'' @ js '' '' @ [EM_DASH] @ js '' '' @ NAIRA # js ''5,000'')
   \<and> parseVariants_app (js ''Large'' @ js '' '' @ [EM_DASH] @ js '' '' @ NAIRA # js ''5,000'')
       = [\<lparr>v_name = js ''Large'', v_price = NAIRA # js ''5,000'', v_priceValue = 5000\<rparr>]"
proof -
  have h1: "entryShape (js ''Large'') (js '' '') (js '' '') (js ''$50'')"
    by (simp add: builtin_defs entryShape_def)
  have h2: "entryShape (js ''Large'') (js '' '') (js '' '') (NAIRA # js ''5,000'')"
    by (simp add: builtin_defs entryShape_def)
  have n1: "\<not> startsWithNairaAmount (js ''$50'')"
    by (simp add: builtin_defs startsWithNairaAmount_def)
  have n2: "nairaText (NAIRA # js ''5,000'')"
    by (simp add: builtin_defs nairaText_def isDigitOrComma_def)
  have t1: "trim (js ''Large'') = js ''Large''" by (simp add: builtin_defs)
  have t2: "trim (takeWhile (\<lambda>c. \<not> isLineTerminator c) (js ''$50'')) = js ''$50''"
    by (simp add: builtin_defs)
  have t3: "parsePriceValue_staff (takeWhile (\<lambda>c. \<not> isLineTerminator c) (js ''$50'')) = 50"
    by (simp add: builtin_defs parseInt_defs)
  have t4: "parsePrice_spec (NAIRA # js ''5,000'') = 5000"
    by (simp add: builtin_defs parseInt_defs)
  from parseVariants_app_staff_differ[OF h1] n1 t1 t2 t3
  have a: "parseVariants_staff (js ''Large'' @ js '' '' @ [EM_DASH] @ js '' '' @ js ''$50'')
       = [\<lparr>v_name = js ''Large'', v_price = js ''$50'', v_priceValue = 50\<rparr>]
     \<and> parseVariants_app (js ''Large'' @ js '' '' @ [EM_DASH] @ js '' '' @ js ''$50'') = []"
    by metis
  from parseVariants_app_staff_differ[OF h2] n2 t1 t4
  have b: "parseVariants_app (js ''Large'' @ js '' '' @ [EM_DASH] @ js '' '' @ NAIRA # js ''5,000'')
       = parseVariants_staff (js ''Large'' @ js '' '' @ [EM_DASH] @ js '' '' @ NAIRA # js ''5,000'')
     \<and> parseVariants_app (js ''Large'' @ js '' '' @ [EM_DASH] @ js '' '' @ NAIRA # js ''5,000'')
       = [\<lparr>v_name = js ''Large'', v_price = NAIRA # js ''5,000'', v_priceValue = 5000\<rparr>]"
    by metis
  from h1 h2 n2 a b show ?thesis by blast
qed

section \<open>Quoted fields\<close>

text \<open>A run of \<open>k\<close> quotes in front of something that is not a quote: the loop takes the
  quotes in pairs, each pair a literal quote, and a quote left over toggles the state.\<close>

lemma quote_run:
  assumes "rest = [] \<or> hd rest \<noteq> DQUOTE"
  shows "parseCSVRow_loop flds cur inq (replicate k DQUOTE @ rest)
     = parseCSVRow_loop flds (cur @ replicate (k div 2) DQUOTE) (inq \<noteq> odd k) rest"
proof (induction k arbitrary: cur rule: less_induct)
  case (less k)
  consider "k = 0" | "k = 1" | j where "k = Suc (Suc j)"
    by (metis One_nat_def not0_implies_Suc)
  then show ?case
  proof cases
    case 1
    then show ?thesis by simp
  next
    case 2
    have "\<not> nextIs DQUOTE rest" using assms by (cases rest) (auto simp: nextIs_def)
    with 2 show ?thesis by simp
  next
    case 3
    have "parseCSVRow_loop flds cur inq (replicate k DQUOTE @ rest)
        = parseCSVRow_loop flds (cur @ [DQUOTE]) inq (replicate j DQUOTE @ rest)"
      using 3 by (simp add: nextIs_def)
    also have "\<dots> = parseCSVRow_loop flds ((cur @ [DQUOTE]) @ replicate (j div 2) DQUOTE)
        (inq \<noteq> odd j) rest"
      using less[of j "cur @ [DQUOTE]"] 3 by simp
    also have "(cur @ [DQUOTE]) @ replicate (j div 2) DQUOTE = cur @ replicate (k div 2) DQUOTE"
      using 3 by (simp add: replicate_append_same)
    finally show ?thesis using 3 by simp
  qed
qed

lemma replicate_two: "replicate j x @ [x, x] = replicate (Suc (Suc j)) x"
  by (induction j) simp_all

lemma quoted_body:
  assumes "rest = [] \<or> hd rest \<noteq> DQUOTE" "inq \<longleftrightarrow> even j"
    "even j \<or> (\<exists>c \<in> set v. c \<noteq> DQUOTE)"
  shows "parseCSVRow_loop flds cur inq (replicate j DQUOTE @ doubleQuotes v @ DQUOTE # rest)
     = parseCSVRow_loop flds (cur @ replicate (j div 2) DQUOTE @ v) False rest"
  using assms(2,3)
proof (induction v arbitrary: j cur inq)
  case Nil
  then have e: "even j" and i: "inq" by simp_all
  have eq: "replicate j DQUOTE @ doubleQuotes [] @ DQUOTE # rest = replicate (Suc j) DQUOTE @ rest"
    by (simp add: doubleQuotes_def replicate_append_same)
  have "parseCSVRow_loop flds cur inq (replicate (Suc j) DQUOTE @ rest)
      = parseCSVRow_loop flds (cur @ replicate (Suc j div 2) DQUOTE) (inq \<noteq> odd (Suc j)) rest"
    using assms(1) by (rule quote_run)
  also have "\<dots> = parseCSVRow_loop flds (cur @ replicate (j div 2) DQUOTE @ []) False rest"
    using e i by simp
  finally show ?case unfolding eq .
next
  case (Cons c v)
  show ?case
  proof (cases "c = DQUOTE")
    case True
    have s: "replicate j DQUOTE @ doubleQuotes (c # v) @ DQUOTE # rest
        = replicate (Suc (Suc j)) DQUOTE @ doubleQuotes v @ DQUOTE # rest"
      using True by (simp add: doubleQuotes_def replicate_two)
    have c1: "inq \<longleftrightarrow> even (Suc (Suc j))" using Cons.prems(1) by simp
    have c2: "even (Suc (Suc j)) \<or> (\<exists>c \<in> set v. c \<noteq> DQUOTE)"
      using Cons.prems(2) True by auto
    have "cur @ replicate (Suc (Suc j) div 2) DQUOTE @ v = cur @ replicate (j div 2) DQUOTE @ c # v"
      using True by (simp add: replicate_append_same)
    then show ?thesis
      unfolding s using Cons.IH[OF c1 c2, of cur] by simp
  next
    case False
    have s: "replicate j DQUOTE @ doubleQuotes (c # v) @ DQUOTE # rest
        = replicate j DQUOTE @ (c # doubleQuotes v @ DQUOTE # rest)"
      using False by (simp add: doubleQuotes_def)
    have r: "parseCSVRow_loop flds cur inq (replicate j DQUOTE @ (c # doubleQuotes v @ DQUOTE # rest))
        = parseCSVRow_loop flds (cur @ replicate (j div 2) DQUOTE) (inq \<noteq> odd j)
            (c # doubleQuotes v @ DQUOTE # rest)"
      using False by (intro quote_run) simp
    have t: "(inq \<noteq> odd j) = True" using Cons.prems(1) by auto
    have step: "parseCSVRow_loop flds (cur @ replicate (j div 2) DQUOTE) True
            (c # doubleQuotes v @ DQUOTE # rest)
        = parseCSVRow_loop flds ((cur @ replicate (j div 2) DQUOTE) @ [c]) True
            (replicate 0 DQUOTE @ doubleQuotes v @ DQUOTE # rest)"
      using False by simp
    have ih: "parseCSVRow_loop flds ((cur @ replicate (j div 2) DQUOTE) @ [c]) True
            (replicate 0 DQUOTE @ doubleQuotes v @ DQUOTE # rest)
        = parseCSVRow_loop flds (((cur @ replicate (j div 2) DQUOTE) @ [c]) @ replicate (0 div 2) DQUOTE @ v)
            False rest"
      by (rule Cons.IH) simp_all
    show ?thesis unfolding s r t step ih by simp
  qed
qed

text \<open>A quoted field whose value has a character other than the quote: the loop is, after
  the field, where it would be after the bare value, commas and quotes included.\<close>

lemma quoted_field_loop:
  assumes "rest = [] \<or> hd rest \<noteq> DQUOTE" "\<exists>c \<in> set v. c \<noteq> DQUOTE"
  shows "parseCSVRow_loop flds cur False (quoteField v @ rest)
     = parseCSVRow_loop flds (cur @ v) False rest"
proof -
  have "quoteField v @ rest = replicate 1 DQUOTE @ doubleQuotes v @ DQUOTE # rest"
    by (simp add: quoteField_def)
  then show ?thesis
    using quoted_body[OF assms(1), of False 1 v flds cur] assms(2) by simp
qed

lemma quoted_field_parses:
  assumes "\<exists>c \<in> set v. c \<noteq> DQUOTE"
  shows "parseCSVRow (quoteField v) = [trim v]"
    and "parseCSVRow (quoteField v @ [COMMA] @ tail) = trim v # parseCSVRow tail"
proof -
  show "parseCSVRow (quoteField v) = [trim v]"
    using quoted_field_loop[of "[]" v "[]" "[]"] assms by (simp add: parseCSVRow_def)
  have "parseCSVRow_loop [] [] False (quoteField v @ COMMA # tail)
      = parseCSVRow_loop [] v False (COMMA # tail)"
    using quoted_field_loop[of "COMMA # tail" v "[]" "[]"] assms
    by (simp add: COMMA_def DQUOTE_def)
  also have "\<dots> = parseCSVRow_loop [trim v] [] False tail"
    by (simp add: COMMA_def DQUOTE_def)
  finally have a: "parseCSVRow (quoteField v @ [COMMA] @ tail) = parseCSVRow_loop [trim v] [] False tail"
    by (simp add: parseCSVRow_def)
  have acc: "parseCSVRow_loop (f # fs) cur inq s = f # parseCSVRow_loop fs cur inq s"
    for f fs cur inq s
    by (induction fs cur inq s arbitrary: rule: parseCSVRow_loop.induct) simp_all
  show "parseCSVRow (quoteField v @ [COMMA] @ tail) = trim v # parseCSVRow tail"
    using a acc[of "trim v" "[]" "[]" False tail] by (simp add: parseCSVRow_def)
qed

text \<open>The row splitter keeps a quoted field in one row, line breaks included.\<close>

lemma splitRows_in_quotes:
  "splitRows rows cur True (doubleQuotes v @ DQUOTE # rest)
     = splitRows rows (cur @ doubleQuotes v @ [DQUOTE]) False rest"
proof (induction v arbitrary: cur)
  case Nil
  then show ?case by (simp add: doubleQuotes_def)
next
  case (Cons c v)
  show ?case
  proof (cases "c = DQUOTE")
    case True
    then show ?thesis
      using Cons.IH[of "cur @ [DQUOTE, DQUOTE]"] by (simp add: doubleQuotes_def)
  next
    case False
    then show ?thesis
      using Cons.IH[of "cur @ [c]"] by (simp add: doubleQuotes_def)
  qed
qed

lemma splitRows_quoted_field:
  "splitRows rows cur False (quoteField v @ rest)
     = splitRows rows (cur @ quoteField v) False rest"
  using splitRows_in_quotes[of rows "cur @ [DQUOTE]" v rest]
  by (simp add: quoteField_def)

text \<open>
  C6. The enclosing quotes of a quoted field are stripped from the value and a doubled
  quote inside it is one literal quote. The field parser does so when the value has a
  character other than the quote (\<open>quoted_field_parses\<close>); it tests for a doubled
  quote before it looks at its quoted state, so the empty quoted field, two quotes, is
  read as an escaped quote: the row \<open>a,"",b\<close> has the fields \<open>a\<close>, one quote
  character, and \<open>b\<close>, the quote stays through the cleaning step, and a product whose
  description cell is \<open>""\<close> gets the description \<open>"\<close>. A quoted field whose value
  is one quote comes out as two.
\<close>

theorem empty_quoted_field_keeps_quote:
  "parseCSVRow (js ''a,'' @ [DQUOTE, DQUOTE] @ js '',b'') = [js ''a'', [DQUOTE], js ''b'']
   \<and> map cleanField (parseCSVRow (js ''a,'' @ [DQUOTE, DQUOTE] @ js '',b''))
       = [js ''a'', [DQUOTE], js ''b'']
   \<and> parseCSVRow [DQUOTE, DQUOTE, DQUOTE, DQUOTE] = [[DQUOTE, DQUOTE]]
   \<and> map description
        (parseCSV_app (\<lambda>n. []) (\<lambda>n. [])
           (js ''id,name,desc,price'' @ [LF] @ js ''P1,Rose,'' @ [DQUOTE, DQUOTE] @ js '',500''))
       = [[DQUOTE]]"
  by (simp add: builtin_defs parseInt_defs csv_defs variant_defs record_defs Let_def)

end
